theory Spec2Isabelle
  imports Main "HOL-Library.Word" "HOL-Library.List_Lexorder" "HOL-Library.Sublist"
    "HOL-Library.Multiset"
begin

unbundle bit_operations_syntax

section \<open>JavaScript strings\<close>

text \<open>
  A JavaScript string is a sequence of UTF-16 code units; the default order of
  \<^verbatim>\<open>Array.prototype.sort\<close> on strings is the lexicographic order on code units
  (a proper prefix comes first), which is the order of lists of words here.
  A \<^verbatim>\<open>Uint8Array\<close> is a list of bytes.
\<close>

type_synonym jstring = "16 word list"
type_synonym bytes = "8 word list"

text \<open>ASCII literals of the source, as code units.\<close>

definition js :: "string \<Rightarrow> jstring" where
  "js s = map of_char s"

subsection \<open>\<^verbatim>\<open>JSON.stringify\<close> of a string\<close>

text \<open>
  The quoting of ECMAScript (\<^verbatim>\<open>QuoteJSONString\<close>): the two-character escapes,
  \<^verbatim>\<open>\uXXXX\<close> for the other control characters and for unpaired surrogates,
  and every other code point as it is.
\<close>

definition is_high_surrogate :: "16 word \<Rightarrow> bool" where
  "is_high_surrogate c \<longleftrightarrow> 0xD800 \<le> c \<and> c \<le> 0xDBFF"

definition is_low_surrogate :: "16 word \<Rightarrow> bool" where
  "is_low_surrogate c \<longleftrightarrow> 0xDC00 \<le> c \<and> c \<le> 0xDFFF"

definition hex_digit :: "nat \<Rightarrow> 16 word" where
  "hex_digit n = of_char (''0123456789abcdef'' ! (n mod 16))"

definition unicode_escape :: "16 word \<Rightarrow> jstring" where
  "unicode_escape c =
     [0x5C, 0x75] @ [hex_digit (unat c div 4096), hex_digit (unat c div 256),
                  hex_digit (unat c div 16), hex_digit (unat c)]"

definition quote_unit :: "16 word \<Rightarrow> jstring" where
  "quote_unit c =
     (if c = 0x08 then [0x5C, 0x62]
      else if c = 0x09 then [0x5C, 0x74]
      else if c = 0x0A then [0x5C, 0x6E]
      else if c = 0x0C then [0x5C, 0x66]
      else if c = 0x0D then [0x5C, 0x72]
      else if c = 0x22 then [0x5C, 0x22]
      else if c = 0x5C then [0x5C, 0x5C]
      else if c < 0x20 \<or> is_high_surrogate c \<or> is_low_surrogate c then unicode_escape c
      else [c])"

fun quote_units :: "jstring \<Rightarrow> jstring" where
  "quote_units [] = []"
| "quote_units [c] = quote_unit c"
| "quote_units (c # d # ds) =
     (if is_high_surrogate c \<and> is_low_surrogate d then c # d # quote_units ds
      else quote_unit c @ quote_units (d # ds))"

definition json_quote :: "jstring \<Rightarrow> jstring" where
  "json_quote s = [0x22] @ quote_units s @ [0x22]"

subsection \<open>TextEncoder: UTF-8 bytes of a string\<close>

definition utf8_code_point :: "nat \<Rightarrow> bytes" where
  "utf8_code_point n =
     (if n < 0x80 then [of_nat n]
      else if n < 0x800 then [of_nat (0xC0 + n div 64), of_nat (0x80 + n mod 64)]
      else if n < 0x10000 then
        [of_nat (0xE0 + n div 4096), of_nat (0x80 + n div 64 mod 64), of_nat (0x80 + n mod 64)]
      else
        [of_nat (0xF0 + n div 262144), of_nat (0x80 + n div 4096 mod 64),
         of_nat (0x80 + n div 64 mod 64), of_nat (0x80 + n mod 64)])"

definition scalar_of_unit :: "16 word \<Rightarrow> nat" where
  "scalar_of_unit c =
     (if is_high_surrogate c \<or> is_low_surrogate c then 0xFFFD else unat c)"

fun text_encode :: "jstring \<Rightarrow> bytes" where
  "text_encode [] = []"
| "text_encode [c] = utf8_code_point (scalar_of_unit c)"
| "text_encode (c # d # ds) =
     (if is_high_surrogate c \<and> is_low_surrogate d
      then utf8_code_point (0x10000 + (unat c - 0xD800) * 0x400 + (unat d - 0xDC00))
             @ text_encode ds
      else utf8_code_point (scalar_of_unit c) @ text_encode (d # ds))"

subsection \<open>JavaScript values and canonical JSON\<close>

text \<open>
  The values a \<^verbatim>\<open>Record<string, unknown>\<close> of the protocol holds.
\<close>

datatype json =
    JNull
  | JUndefined
  | JBool bool
  | JNum jstring
  | JStr jstring
  | JArr "json list"
  | JObj "(jstring \<times> json) list"

fun join :: "jstring \<Rightarrow> jstring list \<Rightarrow> jstring" where
  "join sep [] = []"
| "join sep [x] = x"
| "join sep (x # y # ys) = x @ sep @ join sep (y # ys)"

text \<open>
  \<^verbatim>\<open>sortedStringify\<close> of \<^verbatim>\<open>crypto.ts\<close>. An object is the list of its own
  properties in enumeration order (keys are distinct in any object); a number is carried
  as the text that \<^verbatim>\<open>String\<close> yields for it. Reading a key that is absent yields
  \<^verbatim>\<open>undefined\<close>, printed as \<^verbatim>\<open>null\<close>.
\<close>

function sortedStringify :: "json \<Rightarrow> jstring" where
  "sortedStringify JNull = js ''null''"
| "sortedStringify JUndefined = js ''null''"
| "sortedStringify (JStr s) = json_quote s"
| "sortedStringify (JNum t) = t"
| "sortedStringify (JBool b) = (if b then js ''true'' else js ''false'')"
| "sortedStringify (JArr vs) =
     js ''['' @ join (js '','') (map sortedStringify vs) @ js '']''"
| "sortedStringify (JObj kvs) =
     js ''{'' @
     join (js '','')
       (map (\<lambda>k. json_quote k @ js '':'' @
                (case map_of kvs k of Some v \<Rightarrow> sortedStringify v
                                    | None \<Rightarrow> js ''null''))
            (sort (map fst kvs)))
     @ js ''}''"
  by pat_completeness auto
termination
proof (relation "measure size")
  show "wf (measure size)" by simp
next
  fix vs :: "json list" and x assume "x \<in> set vs"
  then show "(x, JArr vs) \<in> measure size"
    by (induction vs) auto
next
  fix kvs :: "(jstring \<times> json) list" and k v
  assume "map_of kvs k = Some v"
  then have "(k, v) \<in> set kvs" by (rule map_of_SomeD)
  then show "(v, JObj kvs) \<in> measure size"
    by (induction kvs) auto
qed

text \<open>
  \<^verbatim>\<open>canonicalize\<close>: copy the entries whose key is not \<^verbatim>\<open>signature\<close> and whose
  value is neither \<^verbatim>\<open>null\<close> nor \<^verbatim>\<open>undefined\<close>, print with sorted keys, encode.
  The copy is taken in the order of the entries; the printer sorts the keys, so the order
  in which the copy enumerates them plays no part. The copy is made by the assignment
  \<^verbatim>\<open>filtered[k] = v\<close> into a fresh object literal: for the key \<^verbatim>\<open>__proto__\<close> this
  assignment reaches the setter inherited from \<^verbatim>\<open>Object.prototype\<close>, which creates no
  own property, so an entry under that key is not copied.
\<close>

definition canonicalize :: "(jstring \<times> json) list \<Rightarrow> bytes" where
  "canonicalize data =
     text_encode (sortedStringify (JObj
       (filter (\<lambda>(k, v). k \<noteq> js ''signature'' \<and> v \<noteq> JNull \<and> v \<noteq> JUndefined
                         \<and> k \<noteq> js ''__proto__'') data)))"

text \<open>
  The native \<^verbatim>\<open>JSON.stringify\<close>: properties in enumeration order, a property whose
  value is \<^verbatim>\<open>undefined\<close> left out, \<^verbatim>\<open>undefined\<close> in an array printed as
  \<^verbatim>\<open>null\<close>, and the non-finite numbers printed as \<^verbatim>\<open>null\<close>.
\<close>

function json_stringify :: "json \<Rightarrow> jstring" where
  "json_stringify JNull = js ''null''"
| "json_stringify JUndefined = js ''null''"
| "json_stringify (JStr s) = json_quote s"
| "json_stringify (JNum t) =
     (if t = js ''NaN'' \<or> t = js ''Infinity'' \<or> t = js ''-Infinity'' then js ''null'' else t)"
| "json_stringify (JBool b) = (if b then js ''true'' else js ''false'')"
| "json_stringify (JArr vs) =
     js ''['' @ join (js '','') (map json_stringify vs) @ js '']''"
| "json_stringify (JObj kvs) =
     js ''{'' @
     join (js '','')
       (map (\<lambda>kv. json_quote (fst kv) @ js '':'' @ json_stringify (snd kv))
            (filter (\<lambda>kv. snd kv \<noteq> JUndefined) kvs))
     @ js ''}''"
  by pat_completeness auto
termination
proof (relation "measure size")
  show "wf (measure size)" by simp
next
  fix vs :: "json list" and x assume "x \<in> set vs"
  then show "(x, JArr vs) \<in> measure size"
    by (induction vs) auto
next
  fix kvs :: "(jstring \<times> json) list" and kv
  assume "kv \<in> set (filter (\<lambda>kv. snd kv \<noteq> JUndefined) kvs)"
  then have "kv \<in> set kvs" by simp
  then show "(snd kv, JObj kvs) \<in> measure size"
    by (induction kvs) auto
qed

declare sortedStringify.simps [simp del] json_stringify.simps [simp del]

section \<open>Errors\<close>

text \<open>
  The exception classes of \<^verbatim>\<open>errors.ts\<close>; \<open>JsError\<close> stands for any other
  exception (a plain \<^verbatim>\<open>Error\<close>, a \<^verbatim>\<open>SyntaxError\<close> of \<^verbatim>\<open>JSON.parse\<close>, an
  exception of libsodium or of the transport).
\<close>

datatype error =
    UAMError
  | InvalidAddressError
  | InvalidEnvelopeError jstring
  | EnvelopeTooLargeError
  | SignatureVerificationError
  | EncryptionError
  | DecryptionError
  | InvalidContactCardError
  | KeyPinningError
  | JsError

section \<open>Envelope\<close>

definition UAM_VERSION :: jstring where
  "UAM_VERSION = js ''0.1''"

definition MAX_ENVELOPE_SIZE :: nat where
  "MAX_ENVELOPE_SIZE = 65536"

definition MESSAGE :: jstring where "MESSAGE = js ''message''"
definition HANDSHAKE_REQUEST :: jstring where "HANDSHAKE_REQUEST = js ''handshake.request''"
definition HANDSHAKE_ACCEPT :: jstring where "HANDSHAKE_ACCEPT = js ''handshake.accept''"
definition HANDSHAKE_DENY :: jstring where "HANDSHAKE_DENY = js ''handshake.deny''"
definition RECEIPT_DELIVERED :: jstring where "RECEIPT_DELIVERED = js ''receipt.delivered''"
definition RECEIPT_READ :: jstring where "RECEIPT_READ = js ''receipt.read''"
definition RECEIPT_FAILED :: jstring where "RECEIPT_FAILED = js ''receipt.failed''"
definition SESSION_REQUEST :: jstring where "SESSION_REQUEST = js ''session.request''"
definition SESSION_ACCEPT :: jstring where "SESSION_ACCEPT = js ''session.accept''"
definition SESSION_DECLINE :: jstring where "SESSION_DECLINE = js ''session.decline''"
definition SESSION_END :: jstring where "SESSION_END = js ''session.end''"

text \<open>The message types of the enumeration \<^verbatim>\<open>MessageType\<close>.\<close>

definition message_types :: "jstring list" where
  "message_types =
     [MESSAGE, HANDSHAKE_REQUEST, HANDSHAKE_ACCEPT, HANDSHAKE_DENY,
      RECEIPT_DELIVERED, RECEIPT_READ, RECEIPT_FAILED,
      SESSION_REQUEST, SESSION_ACCEPT, SESSION_DECLINE, SESSION_END]"

record envelope =
  uamVersion :: jstring
  messageId :: jstring
  fromAddress :: jstring
  toAddress :: jstring
  timestamp :: jstring
  msgType :: jstring
  nonce :: jstring
  payload :: jstring
  signature :: jstring
  threadId :: "json option"
  replyTo :: "json option"
  expires :: "json option"
  mediaType :: "json option"
  metadata :: "json option"
  attachments :: "json option"

type_synonym wire = "(jstring \<times> json) list"

definition opt_entry :: "string \<Rightarrow> json option \<Rightarrow> wire" where
  "opt_entry k v = (case v of None \<Rightarrow> [] | Some x \<Rightarrow> [(js k, x)])"

text \<open>
  \<^verbatim>\<open>buildSignableDict\<close> of \<^verbatim>\<open>envelope.ts\<close>: the eight required fields under their
  wire names, then each optional field that is not \<^verbatim>\<open>undefined\<close>.
\<close>

definition buildSignableDict :: "envelope \<Rightarrow> wire" where
  "buildSignableDict e =
     [(js ''uam_version'', JStr (uamVersion e)),
      (js ''message_id'', JStr (messageId e)),
      (js ''from'', JStr (fromAddress e)),
      (js ''to'', JStr (toAddress e)),
      (js ''timestamp'', JStr (timestamp e)),
      (js ''type'', JStr (msgType e)),
      (js ''nonce'', JStr (nonce e)),
      (js ''payload'', JStr (payload e))]
     @ opt_entry ''thread_id'' (threadId e)
     @ opt_entry ''reply_to'' (replyTo e)
     @ opt_entry ''expires'' (expires e)
     @ opt_entry ''media_type'' (mediaType e)
     @ opt_entry ''metadata'' (metadata e)"

definition toWireDict :: "envelope \<Rightarrow> wire" where
  "toWireDict e =
     buildSignableDict e @ [(js ''signature'', JStr (signature e))]
     @ opt_entry ''attachments'' (attachments e)"

definition REQUIRED_WIRE_FIELDS :: "jstring list" where
  "REQUIRED_WIRE_FIELDS =
     [js ''uam_version'', js ''message_id'', js ''from'', js ''to'', js ''timestamp'',
      js ''type'', js ''nonce'', js ''payload'', js ''signature'']"

text \<open>
  The casts of \<^verbatim>\<open>fromWireDict\<close> check nothing at run time. A required field,
  declared \<^verbatim>\<open>string\<close>, is read as the string it holds; on a value of another type
  this reader is left unspecified, as the declared type leaves it. An optional field is
  \<^verbatim>\<open>undefined\<close> (\<open>None\<close>) when the key is absent or holds \<^verbatim>\<open>undefined\<close>, and
  otherwise holds the value found under the key, whatever it is: a \<^verbatim>\<open>null\<close> stays
  \<^verbatim>\<open>null\<close>.
\<close>

fun as_string :: "json \<Rightarrow> jstring" where
  "as_string (JStr s) = s"

definition field :: "wire \<Rightarrow> string \<Rightarrow> json" where
  "field d k = (case map_of d (js k) of Some v \<Rightarrow> v | None \<Rightarrow> JUndefined)"

definition opt_field :: "wire \<Rightarrow> string \<Rightarrow> json option" where
  "opt_field d k = (case field d k of JUndefined \<Rightarrow> None | v \<Rightarrow> Some v)"

definition missing_fields :: "jstring list \<Rightarrow> wire \<Rightarrow> jstring list" where
  "missing_fields required d = filter (\<lambda>f. f \<notin> set (map fst d)) required"

definition missing_message :: "jstring list \<Rightarrow> jstring" where
  "missing_message missing =
     js ''Missing required fields: '' @ json_stringify (JArr (map JStr (sort missing)))"

definition fromWireDict :: "wire \<Rightarrow> error + envelope" where
  "fromWireDict d =
     (let missing = missing_fields REQUIRED_WIRE_FIELDS d in
      if length missing > 0 then Inl (InvalidEnvelopeError (missing_message missing))
      else Inr \<lparr>
        uamVersion = as_string (field d ''uam_version''),
        messageId = as_string (field d ''message_id''),
        fromAddress = as_string (field d ''from''),
        toAddress = as_string (field d ''to''),
        timestamp = as_string (field d ''timestamp''),
        msgType = as_string (field d ''type''),
        nonce = as_string (field d ''nonce''),
        payload = as_string (field d ''payload''),
        signature = as_string (field d ''signature''),
        threadId = opt_field d ''thread_id'',
        replyTo = opt_field d ''reply_to'',
        expires = opt_field d ''expires'',
        mediaType = opt_field d ''media_type'',
        metadata = opt_field d ''metadata'',
        attachments = opt_field d ''attachments'' \<rparr>)"

section \<open>Contact book\<close>

text \<open>
  The three tables of \<^verbatim>\<open>ContactBook\<close> and its in-memory caches. A row of
  \<^verbatim>\<open>contacts\<close> is keyed by its address; SQL \<^verbatim>\<open>NULL\<close> is \<open>None\<close>;
  \<^verbatim>\<open>datetime('now')\<close> is the clock reading passed to each operation, in seconds.
\<close>

record contact =
  public_key :: jstring
  display_name :: "jstring option"
  trust_state :: jstring
  trust_source :: "jstring option"
  relay :: "jstring option"
  relays_json :: "jstring option"
  pinned_at :: "nat option"
  first_seen :: nat
  last_seen :: nat

record pending_entry =
  pending_address :: jstring
  contactCard :: jstring
  receivedAt :: nat

record contact_book =
  db_open :: bool
  contacts :: "jstring \<rightharpoonup> contact"
  pending_handshakes :: "pending_entry list"
  blocked_patterns :: "(jstring \<times> nat) list"
  knownAddresses :: "jstring set"
  blockedExact :: "jstring set"
  blockedDomains :: "jstring set"

record contact_options =
  opt_displayName :: "jstring option"
  opt_trustState :: "jstring option"
  opt_trustSource :: "jstring option"
  opt_relay :: "jstring option"
  opt_relays :: "jstring list option"

definition no_options :: contact_options where
  "no_options = \<lparr> opt_displayName = None, opt_trustState = None, opt_trustSource = None,
                    opt_relay = None, opt_relays = None \<rparr>"

definition isKnown :: "contact_book \<Rightarrow> jstring \<Rightarrow> bool" where
  "isKnown b address \<longleftrightarrow> address \<in> knownAddresses b"

text \<open>\<^verbatim>\<open>address.includes("::")\<close> and \<^verbatim>\<open>address.split("::")\<close>.\<close>

fun includes_colons :: "jstring \<Rightarrow> bool" where
  "includes_colons [] = False"
| "includes_colons [c] = False"
| "includes_colons (c # d # ds) = ((c = 0x3A \<and> d = 0x3A) \<or> includes_colons (d # ds))"

fun split_from :: "jstring \<Rightarrow> jstring \<Rightarrow> jstring list" where
  "split_from cur [] = [cur]"
| "split_from cur [c] = [cur @ [c]]"
| "split_from cur (c # d # ds) =
     (if c = 0x3A \<and> d = 0x3A then cur # split_from [] ds
      else split_from (cur @ [c]) (d # ds))"

definition split_colons :: "jstring \<Rightarrow> jstring list" where
  "split_colons s = split_from [] s"

text \<open>
  \<^verbatim>\<open>isBlocked\<close>: the exact set first, then the second segment of the split in the set
  of blocked domains; a missing second segment is \<^verbatim>\<open>undefined\<close>, which no set of
  strings holds.
\<close>

definition isBlocked :: "contact_book \<Rightarrow> jstring \<Rightarrow> bool" where
  "isBlocked b address =
     (if address \<in> blockedExact b then True
      else if includes_colons address then
        (case split_colons address of
           _ # domain # _ \<Rightarrow> domain \<in> blockedDomains b
         | _ \<Rightarrow> False)
      else False)"

definition getPublicKey :: "contact_book \<Rightarrow> jstring \<Rightarrow> jstring option" where
  "getPublicKey b address =
     (if \<not> db_open b then None else map_option public_key (contacts b address))"

definition getTrustState :: "contact_book \<Rightarrow> jstring \<Rightarrow> jstring option" where
  "getTrustState b address =
     (if \<not> db_open b then None else map_option trust_state (contacts b address))"

definition isTrustedOrVerified :: "contact_book \<Rightarrow> jstring \<Rightarrow> bool" where
  "isTrustedOrVerified b address =
     (let state = getTrustState b address in
      state = Some (js ''trusted'') \<or> state = Some (js ''verified'')
        \<or> state = Some (js ''pinned''))"

definition coalesce :: "'a option \<Rightarrow> 'a option \<Rightarrow> 'a option" where
  "coalesce x y = (case x of Some v \<Rightarrow> Some v | None \<Rightarrow> y)"

text \<open>
  \<^verbatim>\<open>addContact\<close>: the upsert. A new row takes the seven given columns, no
  \<^verbatim>\<open>pinned_at\<close>, and the clock for both timestamps; on a conflict the key, the display
  name and the trust state are replaced, the three coalesced columns keep their old value
  where the new one is \<^verbatim>\<open>NULL\<close>, and \<^verbatim>\<open>last_seen\<close> is set.
\<close>

definition addContact ::
  "contact_book \<Rightarrow> nat \<Rightarrow> jstring \<Rightarrow> jstring \<Rightarrow> contact_options \<Rightarrow> error + contact_book" where
  "addContact b now address publicKey options =
     (if \<not> db_open b then Inl JsError
      else
        let displayName = opt_displayName options;
            trustState = (case opt_trustState options of Some t \<Rightarrow> t | None \<Rightarrow> js ''trusted'');
            trustSource = opt_trustSource options;
            relay' = opt_relay options;
            relaysJson = map_option (\<lambda>rs. json_stringify (JArr (map JStr rs)))
                           (opt_relays options);
            row = (case contacts b address of
                     None \<Rightarrow>
                       \<lparr> public_key = publicKey, display_name = displayName,
                         trust_state = trustState, trust_source = trustSource,
                         relay = relay', relays_json = relaysJson, pinned_at = None,
                         first_seen = now, last_seen = now \<rparr>
                   | Some old \<Rightarrow>
                       old\<lparr> public_key := publicKey, display_name := displayName,
                            trust_state := trustState,
                            trust_source := coalesce trustSource (trust_source old),
                            relay := coalesce relay' (relay old),
                            relays_json := coalesce relaysJson (relays_json old),
                            last_seen := now \<rparr>)
        in Inr (b\<lparr> contacts := (contacts b)(address \<mapsto> row),
                    knownAddresses := insert address (knownAddresses b) \<rparr>))"

definition addPending :: "contact_book \<Rightarrow> nat \<Rightarrow> jstring \<Rightarrow> jstring \<Rightarrow> error + contact_book" where
  "addPending b now address contactCardJson =
     (if \<not> db_open b then Inl JsError
      else Inr (b\<lparr> pending_handshakes :=
                     filter (\<lambda>p. pending_address p \<noteq> address) (pending_handshakes b)
                     @ [\<lparr> pending_address = address, contactCard = contactCardJson,
                           receivedAt = now \<rparr>] \<rparr>))"

definition getPending :: "contact_book \<Rightarrow> pending_entry list" where
  "getPending b = (if \<not> db_open b then [] else pending_handshakes b)"

definition removePending :: "contact_book \<Rightarrow> jstring \<Rightarrow> contact_book" where
  "removePending b address =
     (if \<not> db_open b then b
      else b\<lparr> pending_handshakes :=
                filter (\<lambda>p. pending_address p \<noteq> address) (pending_handshakes b) \<rparr>)"

definition getExpiredPending :: "contact_book \<Rightarrow> nat \<Rightarrow> nat \<Rightarrow> pending_entry list" where
  "getExpiredPending b now days =
     (if \<not> db_open b then []
      else filter (\<lambda>p. receivedAt p + days * 86400 < now) (pending_handshakes b))"

definition setPinnedAt :: "contact_book \<Rightarrow> nat \<Rightarrow> jstring \<Rightarrow> error + contact_book" where
  "setPinnedAt b now address =
     (if \<not> db_open b then Inl JsError
      else Inr (case contacts b address of
                  None \<Rightarrow> b
                | Some row \<Rightarrow>
                    b\<lparr> contacts := (contacts b)(address \<mapsto>
                         row\<lparr> pinned_at := Some now, trust_state := js ''pinned'' \<rparr>) \<rparr>))"

definition cacheBlockPattern :: "contact_book \<Rightarrow> jstring \<Rightarrow> contact_book" where
  "cacheBlockPattern b pattern =
     (if prefix (js ''*::'') pattern
      then b\<lparr> blockedDomains := insert (drop 3 pattern) (blockedDomains b) \<rparr>
      else b\<lparr> blockedExact := insert pattern (blockedExact b) \<rparr>)"

definition uncacheBlockPattern :: "contact_book \<Rightarrow> jstring \<Rightarrow> contact_book" where
  "uncacheBlockPattern b pattern =
     (if prefix (js ''*::'') pattern
      then b\<lparr> blockedDomains := blockedDomains b - {drop 3 pattern} \<rparr>
      else b\<lparr> blockedExact := blockedExact b - {pattern} \<rparr>)"

definition addBlock :: "contact_book \<Rightarrow> nat \<Rightarrow> jstring \<Rightarrow> error + contact_book" where
  "addBlock b now pattern =
     (if \<not> db_open b then Inl JsError
      else Inr (cacheBlockPattern
             (b\<lparr> blocked_patterns :=
                   (if pattern \<in> set (map fst (blocked_patterns b)) then blocked_patterns b
                    else blocked_patterns b @ [(pattern, now)]) \<rparr>)
             pattern))"

definition removeBlock :: "contact_book \<Rightarrow> jstring \<Rightarrow> error + contact_book" where
  "removeBlock b pattern =
     (if \<not> db_open b then Inl JsError
      else Inr (uncacheBlockPattern
             (b\<lparr> blocked_patterns := filter (\<lambda>r. fst r \<noteq> pattern) (blocked_patterns b) \<rparr>)
             pattern))"

text \<open>
  What \<^verbatim>\<open>open\<close> does to the caches of a book whose tables are already on disk: the
  known addresses are the keys of \<^verbatim>\<open>contacts\<close>, and both block caches are cleared and
  refilled from \<^verbatim>\<open>blocked_patterns\<close>.
\<close>

definition load_caches :: "contact_book \<Rightarrow> contact_book" where
  "load_caches b =
     fold (\<lambda>row acc. cacheBlockPattern acc (fst row)) (blocked_patterns b)
       (b\<lparr> db_open := True, knownAddresses := dom (contacts b),
            blockedExact := {}, blockedDomains := {} \<rparr>)"

text \<open>\<^verbatim>\<open>close\<close> drops the connection; the caches stay as they are.\<close>

definition close :: "contact_book \<Rightarrow> contact_book" where
  "close b = b\<lparr> db_open := False \<rparr>"

section \<open>The runtime outside the repository\<close>

text \<open>
  What the code calls and does not define: the string and JSON built-ins of the
  JavaScript runtime, Node's \<^verbatim>\<open>base64url\<close> codec and SHA-256, the libsodium primitives
  (a result of \<open>None\<close> is a thrown exception), the address resolver, the transport, and
  the random and clock values drawn at each call of \<^verbatim>\<open>createEnvelope\<close>. They are taken as
  a parameter of every function that uses them.
\<close>

record entropy =
  uuid :: jstring
  nonce_bytes :: bytes
  iso_now :: jstring
  box_random :: bytes

record runtime =
  toLowerCase :: "jstring \<Rightarrow> jstring"
  trim :: "jstring \<Rightarrow> jstring"
  b64Encode :: "bytes \<Rightarrow> jstring"
  b64Decode :: "jstring \<Rightarrow> bytes"
  TextDecoder_decode :: "bytes \<Rightarrow> jstring"
  JSON_parse :: "jstring \<Rightarrow> json option"
  sha256_hex :: "bytes \<Rightarrow> jstring"
  crypto_sign_detached :: "bytes \<Rightarrow> bytes \<Rightarrow> bytes option"
  crypto_sign_verify_detached :: "bytes \<Rightarrow> bytes \<Rightarrow> bytes \<Rightarrow> bool option"
  sk_to_curve25519 :: "bytes \<Rightarrow> bytes option"
  pk_to_curve25519 :: "bytes \<Rightarrow> bytes option"
  crypto_box_easy :: "bytes \<Rightarrow> bytes \<Rightarrow> bytes \<Rightarrow> bytes \<Rightarrow> bytes option"
  crypto_box_open_easy :: "bytes \<Rightarrow> bytes \<Rightarrow> bytes \<Rightarrow> bytes \<Rightarrow> bytes option"
  crypto_box_seal :: "bytes \<Rightarrow> bytes \<Rightarrow> bytes \<Rightarrow> bytes option"
  crypto_box_seal_open :: "bytes \<Rightarrow> bytes \<Rightarrow> bytes \<Rightarrow> bytes option"
  resolvePublicKey :: "jstring \<Rightarrow> jstring \<Rightarrow> jstring \<Rightarrow> jstring option"
  transport_send :: "nat \<Rightarrow> wire \<Rightarrow> bool"
  entropy_at :: "nat \<Rightarrow> entropy"

section \<open>Address\<close>

record parsed_address =
  agent :: jstring
  domain :: jstring

definition is_lower_alnum :: "16 word \<Rightarrow> bool" where
  "is_lower_alnum c \<longleftrightarrow> (0x61 \<le> c \<and> c \<le> 0x7A) \<or> (0x30 \<le> c \<and> c \<le> 0x39)"

definition is_agent_unit :: "16 word \<Rightarrow> bool" where
  "is_agent_unit c \<longleftrightarrow> is_lower_alnum c \<or> c = 0x5F \<or> c = 0x2D"

definition is_domain_unit :: "16 word \<Rightarrow> bool" where
  "is_domain_unit c \<longleftrightarrow> is_lower_alnum c \<or> c = 0x2E \<or> c = 0x2D"

text \<open>
  One side of \<^verbatim>\<open>ADDRESS_RE\<close>: a single alphanumeric, or an alphanumeric, up to
  \<open>n - 2\<close> inner characters and an alphanumeric.
\<close>

definition label_ok :: "(16 word \<Rightarrow> bool) \<Rightarrow> nat \<Rightarrow> jstring \<Rightarrow> bool" where
  "label_ok inner n s \<longleftrightarrow>
     s \<noteq> [] \<and> length s \<le> n \<and> is_lower_alnum (hd s) \<and> is_lower_alnum (last s)
       \<and> list_all inner s"

text \<open>
  The anchored match of \<^verbatim>\<open>ADDRESS_RE\<close>. Neither character class holds a colon, so
  the agent group can only be the text before the first colon, and the domain group the
  text after the two colons that follow it.
\<close>

definition address_match :: "jstring \<Rightarrow> (jstring \<times> jstring) option" where
  "address_match s =
     (let a = takeWhile (\<lambda>c. c \<noteq> 0x3A) s;
          rest = dropWhile (\<lambda>c. c \<noteq> 0x3A) s
      in if prefix [0x3A, 0x3A] rest \<and> label_ok is_agent_unit 64 a
            \<and> label_ok is_domain_unit 255 (drop 2 rest)
         then Some (a, drop 2 rest) else None)"

definition MAX_AGENT_LEN :: nat where "MAX_AGENT_LEN = 64"
definition MAX_ADDRESS_LEN :: nat where "MAX_ADDRESS_LEN = 128"

definition parseAddress :: "runtime \<Rightarrow> jstring \<Rightarrow> error + parsed_address" where
  "parseAddress R raw =
     (let normalized = toLowerCase R (trim R raw) in
      if length normalized > MAX_ADDRESS_LEN then Inl InvalidAddressError
      else case address_match normalized of
             None \<Rightarrow> Inl InvalidAddressError
           | Some (a, d) \<Rightarrow>
               if length a > MAX_AGENT_LEN then Inl InvalidAddressError
               else Inr \<lparr> agent = a, domain = d \<rparr>)"

section \<open>Crypto wrappers\<close>

definition serializeVerifyKey :: "runtime \<Rightarrow> bytes \<Rightarrow> jstring" where
  "serializeVerifyKey R key = b64Encode R key"

definition deserializeVerifyKey :: "runtime \<Rightarrow> jstring \<Rightarrow> bytes" where
  "deserializeVerifyKey R s = b64Decode R s"

definition publicKeyFingerprint :: "runtime \<Rightarrow> bytes \<Rightarrow> jstring" where
  "publicKeyFingerprint R verifyKey = sha256_hex R verifyKey"

definition signMessage :: "runtime \<Rightarrow> bytes \<Rightarrow> bytes \<Rightarrow> error + jstring" where
  "signMessage R data signingKey =
     (case crypto_sign_detached R data signingKey of
        None \<Rightarrow> Inl JsError
      | Some sig \<Rightarrow> Inr (b64Encode R sig))"

text \<open>Every exception inside \<^verbatim>\<open>verifySignature\<close> becomes a \<^verbatim>\<open>SignatureVerificationError\<close>.\<close>

definition verifySignature :: "runtime \<Rightarrow> bytes \<Rightarrow> jstring \<Rightarrow> bytes \<Rightarrow> error + unit" where
  "verifySignature R data signatureB64 verifyKey =
     (let sigBytes = b64Decode R signatureB64 in
      case crypto_sign_verify_detached R sigBytes data verifyKey of
        None \<Rightarrow> Inl SignatureVerificationError
      | Some valid \<Rightarrow> if \<not> valid then Inl SignatureVerificationError else Inr ())"

definition generateNonce :: "runtime \<Rightarrow> entropy \<Rightarrow> jstring" where
  "generateNonce R ent = b64Encode R (nonce_bytes ent)"

definition crypto_box_NONCEBYTES :: nat where
  "crypto_box_NONCEBYTES = 24"

definition encryptPayload ::
  "runtime \<Rightarrow> entropy \<Rightarrow> bytes \<Rightarrow> bytes \<Rightarrow> bytes \<Rightarrow> error + jstring" where
  "encryptPayload R ent plaintext senderSigningKey recipientVerifyKey =
     (case sk_to_curve25519 R senderSigningKey of
        None \<Rightarrow> Inl EncryptionError
      | Some senderCurve \<Rightarrow>
     (case pk_to_curve25519 R recipientVerifyKey of
        None \<Rightarrow> Inl EncryptionError
      | Some recipientCurve \<Rightarrow>
     (let nonce' = box_random ent in
      case crypto_box_easy R plaintext nonce' recipientCurve senderCurve of
        None \<Rightarrow> Inl EncryptionError
      | Some encrypted \<Rightarrow> Inr (b64Encode R (nonce' @ encrypted)))))"

definition decryptPayload :: "runtime \<Rightarrow> jstring \<Rightarrow> bytes \<Rightarrow> bytes \<Rightarrow> error + bytes" where
  "decryptPayload R ciphertextB64 recipientSigningKey senderVerifyKey =
     (let combined = b64Decode R ciphertextB64;
          nonce' = take crypto_box_NONCEBYTES combined;
          ciphertext = drop crypto_box_NONCEBYTES combined
      in case sk_to_curve25519 R recipientSigningKey of
           None \<Rightarrow> Inl DecryptionError
         | Some recipientCurve \<Rightarrow>
        (case pk_to_curve25519 R senderVerifyKey of
           None \<Rightarrow> Inl DecryptionError
         | Some senderCurve \<Rightarrow>
        (case crypto_box_open_easy R ciphertext nonce' senderCurve recipientCurve of
           None \<Rightarrow> Inl DecryptionError
         | Some plaintext \<Rightarrow> Inr plaintext)))"

text \<open>\<^verbatim>\<open>encryptPayloadAnonymous\<close> has no handler: an exception of libsodium leaves as it is.\<close>

definition encryptPayloadAnonymous ::
  "runtime \<Rightarrow> entropy \<Rightarrow> bytes \<Rightarrow> bytes \<Rightarrow> error + jstring" where
  "encryptPayloadAnonymous R ent plaintext recipientVerifyKey =
     (case pk_to_curve25519 R recipientVerifyKey of
        None \<Rightarrow> Inl JsError
      | Some recipientCurve \<Rightarrow>
     (case crypto_box_seal R plaintext recipientCurve (box_random ent) of
        None \<Rightarrow> Inl JsError
      | Some ciphertext \<Rightarrow> Inr (b64Encode R ciphertext)))"

definition decryptPayloadAnonymous :: "runtime \<Rightarrow> jstring \<Rightarrow> bytes \<Rightarrow> error + bytes" where
  "decryptPayloadAnonymous R ciphertextB64 recipientSigningKey =
     (let ciphertext = b64Decode R ciphertextB64 in
      case sk_to_curve25519 R recipientSigningKey of
        None \<Rightarrow> Inl DecryptionError
      | Some recipientCurveSk \<Rightarrow>
     (let recipientVerifyKey = drop 32 recipientSigningKey in
      case pk_to_curve25519 R recipientVerifyKey of
        None \<Rightarrow> Inl DecryptionError
      | Some recipientCurvePk \<Rightarrow>
     (case crypto_box_seal_open R ciphertext recipientCurvePk recipientCurveSk of
        None \<Rightarrow> Inl DecryptionError
      | Some plaintext \<Rightarrow> Inr plaintext)))"

section \<open>Creating and verifying envelopes\<close>

record envelope_options =
  o_threadId :: "jstring option"
  o_replyTo :: "jstring option"
  o_expires :: "jstring option"
  o_mediaType :: "jstring option"
  o_metadata :: "(jstring \<times> json) list option"
  o_attachments :: "json list option"

definition no_envelope_options :: envelope_options where
  "no_envelope_options =
     \<lparr> o_threadId = None, o_replyTo = None, o_expires = None, o_mediaType = None,
       o_metadata = None, o_attachments = None \<rparr>"

definition validateEnvelopeSize :: "envelope \<Rightarrow> error + unit" where
  "validateEnvelopeSize e =
     (let wire = toWireDict e;
          json = json_stringify (JObj wire);
          size = length (text_encode json)
      in if size > MAX_ENVELOPE_SIZE then Inl EnvelopeTooLargeError else Inr ())"

definition createEnvelope ::
  "runtime \<Rightarrow> entropy \<Rightarrow> jstring \<Rightarrow> jstring \<Rightarrow> jstring \<Rightarrow> bytes \<Rightarrow> bytes \<Rightarrow> bytes
     \<Rightarrow> envelope_options \<Rightarrow> error + envelope" where
  "createEnvelope R ent from to messageType payloadPlaintext signingKey recipientVerifyKey
       options =
     (case parseAddress R from of Inl err \<Rightarrow> Inl err | Inr _ \<Rightarrow>
     (case parseAddress R to of Inl err \<Rightarrow> Inl err | Inr _ \<Rightarrow>
     (let messageId' = uuid ent;
          nonce' = generateNonce R ent;
          timestamp' = iso_now ent
      in case (if messageType = HANDSHAKE_REQUEST
               then encryptPayloadAnonymous R ent payloadPlaintext recipientVerifyKey
               else encryptPayload R ent payloadPlaintext signingKey recipientVerifyKey) of
           Inl err \<Rightarrow> Inl err
         | Inr encryptedPayload \<Rightarrow>
        (let tempEnvelope =
               \<lparr> uamVersion = UAM_VERSION, messageId = messageId', fromAddress = from,
                 toAddress = to, timestamp = timestamp', msgType = messageType,
                 nonce = nonce', payload = encryptedPayload, signature = [],
                 threadId = map_option JStr (o_threadId options),
                 replyTo = map_option JStr (o_replyTo options),
                 expires = map_option JStr (o_expires options),
                 mediaType = map_option JStr (o_mediaType options),
                 metadata = map_option JObj (o_metadata options),
                 attachments = map_option JArr (o_attachments options) \<rparr>;
             signable = buildSignableDict tempEnvelope
         in case signMessage R (canonicalize signable) signingKey of
              Inl err \<Rightarrow> Inl err
            | Inr signature' \<Rightarrow>
           (let finalEnvelope =
                  \<lparr> uamVersion = UAM_VERSION, messageId = messageId', fromAddress = from,
                    toAddress = to, timestamp = timestamp', msgType = messageType,
                    nonce = nonce', payload = encryptedPayload, signature = signature',
                    threadId = map_option JStr (o_threadId options),
                    replyTo = map_option JStr (o_replyTo options),
                    expires = map_option JStr (o_expires options),
                    mediaType = map_option JStr (o_mediaType options),
                    metadata = map_option JObj (o_metadata options),
                    attachments = map_option JArr (o_attachments options) \<rparr>
            in case validateEnvelopeSize finalEnvelope of
                 Inl err \<Rightarrow> Inl err
               | Inr _ \<Rightarrow> Inr finalEnvelope)))))"

definition verifyEnvelope :: "runtime \<Rightarrow> envelope \<Rightarrow> bytes \<Rightarrow> error + unit" where
  "verifyEnvelope R e senderVerifyKey =
     verifySignature R (canonicalize (buildSignableDict e)) (signature e) senderVerifyKey"

section \<open>Contact cards\<close>

record contact_card =
  version :: jstring
  card_address :: jstring
  displayName :: jstring
  description :: "json option"
  system :: "json option"
  connectionEndpoint :: "json option"
  card_relay :: jstring
  publicKey :: jstring
  card_signature :: jstring
  verifiedDomain :: "json option"
  payloadFormats :: "json option"
  fingerprint :: "json option"
  relays :: "json option"

definition card_buildSignableDict :: "contact_card \<Rightarrow> wire" where
  "card_buildSignableDict crd =
     [(js ''version'', JStr (version crd)),
      (js ''address'', JStr (card_address crd)),
      (js ''display_name'', JStr (displayName crd)),
      (js ''relay'', JStr (card_relay crd)),
      (js ''public_key'', JStr (publicKey crd))]
     @ opt_entry ''description'' (description crd)
     @ opt_entry ''system'' (system crd)
     @ opt_entry ''connection_endpoint'' (connectionEndpoint crd)
     @ opt_entry ''verified_domain'' (verifiedDomain crd)"

definition contactCardToDict :: "contact_card \<Rightarrow> wire" where
  "contactCardToDict crd =
     card_buildSignableDict crd @ [(js ''signature'', JStr (card_signature crd))]
     @ opt_entry ''payload_formats'' (payloadFormats crd)
     @ opt_entry ''fingerprint'' (fingerprint crd)
     @ opt_entry ''relays'' (relays crd)"

definition verifyContactCard :: "runtime \<Rightarrow> contact_card \<Rightarrow> error + unit" where
  "verifyContactCard R crd =
     (case parseAddress R (card_address crd) of
        Inl _ \<Rightarrow> Inl InvalidContactCardError
      | Inr _ \<Rightarrow>
          (let vk = deserializeVerifyKey R (publicKey crd);
               signable = card_buildSignableDict crd
           in verifySignature R (canonicalize signable) (card_signature crd) vk))"

definition REQUIRED_CARD_FIELDS :: "jstring list" where
  "REQUIRED_CARD_FIELDS =
     [js ''version'', js ''address'', js ''display_name'', js ''relay'', js ''public_key'',
      js ''signature'']"

definition contactCardFromDict :: "runtime \<Rightarrow> wire \<Rightarrow> bool \<Rightarrow> error + contact_card" where
  "contactCardFromDict R d verify =
     (let missing = missing_fields REQUIRED_CARD_FIELDS d in
      if length missing > 0 then Inl InvalidContactCardError
      else
        let crd = \<lparr>
              version = as_string (field d ''version''),
              card_address = as_string (field d ''address''),
              displayName = as_string (field d ''display_name''),
              description = opt_field d ''description'',
              system = opt_field d ''system'',
              connectionEndpoint = opt_field d ''connection_endpoint'',
              card_relay = as_string (field d ''relay''),
              publicKey = as_string (field d ''public_key''),
              card_signature = as_string (field d ''signature''),
              verifiedDomain = opt_field d ''verified_domain'',
              payloadFormats = opt_field d ''payload_formats'',
              fingerprint = opt_field d ''fingerprint'',
              relays = opt_field d ''relays'' \<rparr>
        in if verify
           then (case verifyContactCard R crd of Inl err \<Rightarrow> Inl err | Inr _ \<Rightarrow> Inr crd)
           else Inr crd)"

text \<open>\<^verbatim>\<open>createContactCard\<close> as the agent calls it, without options.\<close>

definition createContactCard ::
  "runtime \<Rightarrow> jstring \<Rightarrow> jstring \<Rightarrow> jstring \<Rightarrow> bytes \<Rightarrow> error + contact_card" where
  "createContactCard R address name relayUrl' signingKey =
     (case parseAddress R address of Inl err \<Rightarrow> Inl err | Inr _ \<Rightarrow>
     (let verifyKey = drop 32 signingKey;
          pubKeyB64 = serializeVerifyKey R verifyKey;
          fp = publicKeyFingerprint R verifyKey;
          formats = [js ''text/plain'', js ''text/markdown''];
          tempCard =
            \<lparr> version = UAM_VERSION, card_address = address, displayName = name,
              description = None, system = None, connectionEndpoint = None,
              card_relay = relayUrl', publicKey = pubKeyB64, card_signature = [],
              verifiedDomain = None, payloadFormats = Some (JArr (map JStr formats)),
              fingerprint = Some (JStr fp), relays = None \<rparr>;
          signable = card_buildSignableDict tempCard
      in case signMessage R (canonicalize signable) signingKey of
           Inl err \<Rightarrow> Inl err
         | Inr signature' \<Rightarrow> Inr (tempCard\<lparr> card_signature := signature' \<rparr>)))"

text \<open>
  \<^verbatim>\<open>JSON.parse\<close> followed by \<^verbatim>\<open>contactCardFromDict\<close>: a syntax error and the value
  \<^verbatim>\<open>null\<close> (whose keys cannot be listed) raise; any other value that is not an object
  has none of the required keys.
\<close>

definition parse_card_dict :: "runtime \<Rightarrow> jstring \<Rightarrow> error + wire" where
  "parse_card_dict R text =
     (case JSON_parse R text of
        None \<Rightarrow> Inl JsError
      | Some (JObj kvs) \<Rightarrow> Inr kvs
      | Some JNull \<Rightarrow> Inl JsError
      | Some JUndefined \<Rightarrow> Inl JsError
      | Some _ \<Rightarrow> Inl InvalidContactCardError)"

section \<open>Agent and handshake manager\<close>

text \<open>
  A connected agent: its identity and configuration, its contact book, the wire dicts it
  has handed to \<^verbatim>\<open>transport.send\<close> so far (oldest first), and the number of entropy
  draws made.
\<close>

record received_message =
  rm_messageId :: jstring
  rm_fromAddress :: jstring
  rm_toAddress :: jstring
  rm_content :: jstring
  rm_timestamp :: jstring
  rm_type :: jstring
  rm_threadId :: "json option"
  rm_replyTo :: "json option"
  rm_mediaType :: "json option"
  rm_verified :: bool

record agent_state =
  own_address :: jstring
  token :: jstring
  relayUrl :: jstring
  relayWsUrl :: jstring
  config_displayName :: jstring
  trustPolicy :: jstring
  signingKey :: bytes
  contactBook :: contact_book
  sent :: "wire list"
  draws :: nat

text \<open>
  An exception leaves the agent as it was when it was thrown: the outcome of a method
  is either the error with that state, or the new state with the result.
\<close>

type_synonym 'a outcome = "error \<times> agent_state + agent_state \<times> 'a"

definition state_after :: "'a outcome \<Rightarrow> agent_state" where
  "state_after r = (case r of Inl (err, a) \<Rightarrow> a | Inr (a, x) \<Rightarrow> a)"

definition transport_send_wire :: "runtime \<Rightarrow> agent_state \<Rightarrow> wire \<Rightarrow> unit outcome" where
  "transport_send_wire R a w =
     (let a' = a\<lparr> sent := sent a @ [w] \<rparr> in
      if transport_send R (length (sent a)) w then Inr (a', ()) else Inl (JsError, a'))"

text \<open>
  Build an envelope from the agent's address and key with the next entropy draw, and
  hand its wire form to the transport.
\<close>

definition emit ::
  "runtime \<Rightarrow> agent_state \<Rightarrow> jstring \<Rightarrow> jstring \<Rightarrow> bytes \<Rightarrow> bytes \<Rightarrow> unit outcome" where
  "emit R a to messageType plaintext recipientVk =
     (case createEnvelope R (entropy_at R (draws a)) (own_address a) to messageType plaintext
             (signingKey a) recipientVk no_envelope_options of
        Inl err \<Rightarrow> Inl (err, a\<lparr> draws := Suc (draws a) \<rparr>)
      | Inr e \<Rightarrow> transport_send_wire R (a\<lparr> draws := Suc (draws a) \<rparr>) (toWireDict e))"

definition sendAccept :: "runtime \<Rightarrow> agent_state \<Rightarrow> jstring \<Rightarrow> bytes \<Rightarrow> unit outcome" where
  "sendAccept R a to recipientVk =
     (case createContactCard R (own_address a) (config_displayName a) (relayWsUrl a)
             (signingKey a) of
        Inl err \<Rightarrow> Inl (err, a)
      | Inr crd \<Rightarrow>
          (let acceptPayload = json_stringify (JObj
                 [(js ''status'', JStr (js ''accepted'')),
                  (js ''contact_card'', JObj (contactCardToDict crd))])
           in emit R a to HANDSHAKE_ACCEPT (text_encode acceptPayload) recipientVk))"

definition sendDeny :: "runtime \<Rightarrow> agent_state \<Rightarrow> jstring \<Rightarrow> bytes \<Rightarrow> unit outcome" where
  "sendDeny R a to recipientVk =
     (let denyPayload = json_stringify (JObj
            [(js ''status'', JStr (js ''denied'')),
             (js ''reason'', JStr (js ''allowlist-only''))])
      in emit R a to HANDSHAKE_DENY (text_encode denyPayload) recipientVk)"

definition with_book :: "agent_state \<Rightarrow> error + contact_book \<Rightarrow> unit outcome" where
  "with_book a r =
     (case r of Inl err \<Rightarrow> Inl (err, a) | Inr b \<Rightarrow> Inr (a\<lparr> contactBook := b \<rparr>, ()))"

definition handleRequest ::
  "runtime \<Rightarrow> agent_state \<Rightarrow> nat \<Rightarrow> envelope \<Rightarrow> bytes \<Rightarrow> unit outcome" where
  "handleRequest R a now e senderVk =
     (case decryptPayloadAnonymous R (payload e) (signingKey a) of
        Inl err \<Rightarrow> Inl (err, a)
      | Inr plaintext \<Rightarrow>
     (case parse_card_dict R (TextDecoder_decode R plaintext) of
        Inl err \<Rightarrow> Inl (err, a)
      | Inr cardDict \<Rightarrow>
     (case contactCardFromDict R cardDict True of
        Inl err \<Rightarrow> Inl (err, a)
      | Inr crd \<Rightarrow>
     (case verifyContactCard R crd of
        Inl err \<Rightarrow> Inl (err, a)
      | Inr _ \<Rightarrow>
          if trustPolicy a = js ''auto-accept'' then
            (case with_book a (addContact (contactBook a) now (card_address crd)
                     (publicKey crd)
                     (no_options\<lparr> opt_displayName := Some (displayName crd),
                                  opt_trustState := Some (js ''provisional''),
                                  opt_trustSource := Some (js ''auto-accepted-provisional'') \<rparr>)) of
               Inl x \<Rightarrow> Inl x
             | Inr (a', _) \<Rightarrow> sendAccept R a' (fromAddress e) senderVk)
          else if trustPolicy a = js ''allowlist-only'' then
            sendDeny R a (fromAddress e) senderVk
          else
            with_book a (addPending (contactBook a) now (fromAddress e)
              (json_stringify (JObj cardDict)))))))"

definition handleAccept ::
  "runtime \<Rightarrow> agent_state \<Rightarrow> nat \<Rightarrow> envelope \<Rightarrow> bytes \<Rightarrow> unit outcome" where
  "handleAccept R a now e senderVk =
     (let senderPkStr = serializeVerifyKey R senderVk in
      case with_book a (addContact (contactBook a) now (fromAddress e) senderPkStr
             (no_options\<lparr> opt_trustState := Some (js ''pinned'') \<rparr>)) of
        Inl x \<Rightarrow> Inl x
      | Inr (a', _) \<Rightarrow> with_book a' (setPinnedAt (contactBook a') now (fromAddress e)))"

definition handleInbound ::
  "runtime \<Rightarrow> agent_state \<Rightarrow> nat \<Rightarrow> envelope \<Rightarrow> bytes \<Rightarrow> received_message option outcome" where
  "handleInbound R a now e senderVk =
     (case (if msgType e = HANDSHAKE_REQUEST then handleRequest R a now e senderVk
            else if msgType e = HANDSHAKE_ACCEPT then handleAccept R a now e senderVk
            else Inr (a, ())) of
        Inl x \<Rightarrow> Inl x
      | Inr (a', _) \<Rightarrow> Inr (a', None))"

text \<open>
  The trust filter written inline in \<^verbatim>\<open>_processInbound\<close>: under a policy other than
  \<^verbatim>\<open>auto-accept\<close>, a sender whose trust state is neither \<^verbatim>\<open>trusted\<close> nor
  \<^verbatim>\<open>verified\<close> is dropped.
\<close>

definition unapproved_sender :: "agent_state \<Rightarrow> jstring \<Rightarrow> bool" where
  "unapproved_sender a from \<longleftrightarrow>
     trustPolicy a \<noteq> js ''auto-accept''
       \<and> (let trust = getTrustState (contactBook a) from
          in trust \<noteq> Some (js ''trusted'') \<and> trust \<noteq> Some (js ''verified''))"

text \<open>
  The calls that \<^verbatim>\<open>Agent._processInbound\<close> makes to the envelope module, the contact
  book, the resolver, the crypto module and the handshake manager. A run of
  \<^verbatim>\<open>_processInbound\<close> is described by the list of the calls it made, in the order in
  which it made them, and by its outcome.
\<close>

datatype call =
    Call_fromWireDict
  | Call_isBlocked jstring
  | Call_getPublicKey jstring
  | Call_resolvePublicKey jstring
  | Call_deserializeVerifyKey jstring
  | Call_verifyEnvelope
  | Call_handleInbound
  | Call_getTrustState jstring
  | Call_decryptPayload

text \<open>The calls \<open>cs\<close> are made, then the run goes on as \<open>r\<close>.\<close>

definition called :: "call list \<Rightarrow> call list \<times> 'a \<Rightarrow> call list \<times> 'a" where
  "called cs r = (cs @ fst r, snd r)"

text \<open>
  \<^verbatim>\<open>Agent._processInbound\<close>, in the order of the source: parse; block list; sender
  key (contact book, else resolver; a resolver failure is a drop); signature (an invalid
  one is a drop); then, for a verified envelope, handshake routing, trust filter and
  decryption (a failure is a drop). A silent drop is the result \<open>None\<close>. The part after
  the signature check is \<open>process_verified_traced\<close>, the part from the sender's key on is
  \<open>verify_traced\<close>.
\<close>

definition process_verified_traced ::
  "runtime \<Rightarrow> agent_state \<Rightarrow> nat \<Rightarrow> envelope \<Rightarrow> bytes
     \<Rightarrow> call list \<times> received_message option outcome" where
  "process_verified_traced R a now e senderVk =
     (if msgType e = HANDSHAKE_REQUEST \<or> msgType e = HANDSHAKE_ACCEPT
           \<or> msgType e = HANDSHAKE_DENY
      then called [Call_handleInbound] ([], handleInbound R a now e senderVk)
      else
        called (if trustPolicy a \<noteq> js ''auto-accept''
                then [Call_getTrustState (fromAddress e)] else [])
          (if unapproved_sender a (fromAddress e) then ([], Inr (a, None))
           else
             called [Call_decryptPayload]
               (case decryptPayload R (payload e) (signingKey a) senderVk of
                  Inl err \<Rightarrow> ([], if err = DecryptionError then Inr (a, None) else Inl (err, a))
                | Inr plaintextBytes \<Rightarrow>
                    ([], Inr (a, Some
                      \<lparr> rm_messageId = messageId e,
                        rm_fromAddress = fromAddress e,
                        rm_toAddress = toAddress e,
                        rm_content = TextDecoder_decode R plaintextBytes,
                        rm_timestamp = timestamp e,
                        rm_type = msgType e,
                        rm_threadId = threadId e,
                        rm_replyTo = replyTo e,
                        rm_mediaType = mediaType e,
                        rm_verified = True \<rparr>)))))"

definition verify_traced ::
  "runtime \<Rightarrow> agent_state \<Rightarrow> nat \<Rightarrow> envelope \<Rightarrow> jstring
     \<Rightarrow> call list \<times> received_message option outcome" where
  "verify_traced R a now e senderPkStr =
     called [Call_deserializeVerifyKey senderPkStr]
       (let senderVk = deserializeVerifyKey R senderPkStr in
        called [Call_verifyEnvelope]
          (case verifyEnvelope R e senderVk of
             Inl err \<Rightarrow>
               ([], if err = SignatureVerificationError then Inr (a, None) else Inl (err, a))
           | Inr _ \<Rightarrow> process_verified_traced R a now e senderVk))"

definition processInbound_traced ::
  "runtime \<Rightarrow> agent_state \<Rightarrow> nat \<Rightarrow> wire \<Rightarrow> call list \<times> received_message option outcome" where
  "processInbound_traced R a now raw =
     called [Call_fromWireDict]
       (case fromWireDict raw of
          Inl err \<Rightarrow> ([], Inl (err, a))
        | Inr e \<Rightarrow>
            called [Call_isBlocked (fromAddress e)]
              (if isBlocked (contactBook a) (fromAddress e) then ([], Inr (a, None))
               else
                 called [Call_getPublicKey (fromAddress e)]
                   (case getPublicKey (contactBook a) (fromAddress e) of
                      Some senderPkStr \<Rightarrow> verify_traced R a now e senderPkStr
                    | None \<Rightarrow>
                        called [Call_resolvePublicKey (fromAddress e)]
                          (case resolvePublicKey R (fromAddress e) (token a) (relayUrl a) of
                             None \<Rightarrow> ([], Inr (a, None))
                           | Some senderPkStr \<Rightarrow> verify_traced R a now e senderPkStr))))"

text \<open>
  The outcome of \<^verbatim>\<open>_processInbound\<close>, and the outcome of its part after the signature
  check. The key under which the signature is checked is \<open>sender_key\<close>.
\<close>

definition processInbound ::
  "runtime \<Rightarrow> agent_state \<Rightarrow> nat \<Rightarrow> wire \<Rightarrow> received_message option outcome" where
  "processInbound R a now raw = snd (processInbound_traced R a now raw)"

definition process_verified ::
  "runtime \<Rightarrow> agent_state \<Rightarrow> nat \<Rightarrow> envelope \<Rightarrow> bytes \<Rightarrow> received_message option outcome" where
  "process_verified R a now e senderVk = snd (process_verified_traced R a now e senderVk)"

definition sender_key :: "runtime \<Rightarrow> agent_state \<Rightarrow> jstring \<Rightarrow> jstring option" where
  "sender_key R a from =
     (case getPublicKey (contactBook a) from of
        Some pk \<Rightarrow> Some pk
      | None \<Rightarrow> resolvePublicKey R from (token a) (relayUrl a))"

text \<open>
  \<^verbatim>\<open>Agent._sendReadReceipt\<close>: nothing for a protocol type; otherwise a
  \<^verbatim>\<open>receipt.read\<close> to the sender, every failure swallowed.
\<close>

definition sendReadReceipt :: "runtime \<Rightarrow> agent_state \<Rightarrow> received_message \<Rightarrow> agent_state" where
  "sendReadReceipt R a msg =
     (if prefix (js ''receipt.'') (rm_type msg) \<or> prefix (js ''handshake.'') (rm_type msg)
           \<or> prefix (js ''session.'') (rm_type msg)
      then a
      else
        (case getPublicKey (contactBook a) (rm_fromAddress msg) of
           None \<Rightarrow> a
         | Some senderPkStr \<Rightarrow>
             (let senderVk = deserializeVerifyKey R senderPkStr;
                  receiptPayload = json_stringify (JObj
                    [(js ''message_id'', JStr (rm_messageId msg))])
              in state_after (emit R a (rm_fromAddress msg) RECEIPT_READ
                                (text_encode receiptPayload) senderVk))))"

text \<open>
  \<^verbatim>\<open>Agent._sweepExpiredHandshakes\<close>: for each pending entry older than seven days, try
  to send \<^verbatim>\<open>receipt.failed\<close> (failures swallowed), then delete the entry.
\<close>

definition sweep_entry :: "runtime \<Rightarrow> pending_entry \<Rightarrow> agent_state \<Rightarrow> agent_state" where
  "sweep_entry R entry a =
     (let a1 =
        (case parse_card_dict R (contactCard entry) of
           Inl _ \<Rightarrow> a
         | Inr cardDict \<Rightarrow>
        (case contactCardFromDict R cardDict True of
           Inl _ \<Rightarrow> a
         | Inr crd \<Rightarrow>
             (let recipientVk = deserializeVerifyKey R (publicKey crd);
                  failPayload = json_stringify (JObj
                    [(js ''reason'', JStr (js ''handshake_expired'')),
                     (js ''original_from'', JStr (pending_address entry))])
              in state_after (emit R a (pending_address entry) RECEIPT_FAILED
                                (text_encode failPayload) recipientVk))))
      in a1\<lparr> contactBook := removePending (contactBook a1) (pending_address entry) \<rparr>)"

definition sweepExpiredHandshakes :: "runtime \<Rightarrow> agent_state \<Rightarrow> nat \<Rightarrow> agent_state" where
  "sweepExpiredHandshakes R a now =
     fold (sweep_entry R) (getExpiredPending (contactBook a) now 7) a"

text \<open>
  The body of the loop of \<^verbatim>\<open>Agent.inbox\<close>: a message that \<^verbatim>\<open>_processInbound\<close>
  returns goes to the result and to \<^verbatim>\<open>_sendReadReceipt\<close>.
\<close>

definition receive_one ::
  "runtime \<Rightarrow> agent_state \<Rightarrow> nat \<Rightarrow> wire \<Rightarrow> received_message option outcome" where
  "receive_one R a now raw =
     (case processInbound R a now raw of
        Inl x \<Rightarrow> Inl x
      | Inr (a', None) \<Rightarrow> Inr (a', None)
      | Inr (a', Some msg) \<Rightarrow> Inr (sendReadReceipt R a' msg, Some msg))"

fun inbox_loop ::
  "runtime \<Rightarrow> agent_state \<Rightarrow> nat \<Rightarrow> wire list \<Rightarrow> received_message list
     \<Rightarrow> received_message list outcome" where
  "inbox_loop R a now [] result = Inr (a, result)"
| "inbox_loop R a now (raw # rawMessages) result =
     (case receive_one R a now raw of
        Inl x \<Rightarrow> Inl x
      | Inr (a', None) \<Rightarrow> inbox_loop R a' now rawMessages result
      | Inr (a', Some msg) \<Rightarrow> inbox_loop R a' now rawMessages (result @ [msg]))"

text \<open>
  \<^verbatim>\<open>Agent.inbox\<close> of a connected agent, on the wire dicts that
  \<^verbatim>\<open>transport.receive\<close> returned: the sweep, then the loop.
\<close>

definition inbox ::
  "runtime \<Rightarrow> agent_state \<Rightarrow> nat \<Rightarrow> wire list \<Rightarrow> received_message list outcome" where
  "inbox R a now rawMessages = inbox_loop R (sweepExpiredHandshakes R a now) now rawMessages []"

section \<open>Notions used in the statements\<close>

text \<open>
  The block caches agree with the table \<^verbatim>\<open>blocked_patterns\<close>, whose patterns are
  distinct (the pattern is the primary key): \<^verbatim>\<open>open\<close> establishes this, and
  \<^verbatim>\<open>addBlock\<close> and \<^verbatim>\<open>removeBlock\<close> keep it.
\<close>

definition block_caches_ok :: "contact_book \<Rightarrow> bool" where
  "block_caches_ok b \<longleftrightarrow>
     distinct (map fst (blocked_patterns b))
     \<and> blockedExact b = {p \<in> fst ` set (blocked_patterns b). \<not> prefix (js ''*::'') p}
     \<and> blockedDomains b = drop 3 ` {p \<in> fst ` set (blocked_patterns b). prefix (js ''*::'') p}"

text \<open>
  The contact books that the code can reach: \<^verbatim>\<open>open\<close> on tables already on disk
  (the pattern is the primary key of \<^verbatim>\<open>blocked_patterns\<close>, so its patterns are
  distinct), followed by any number of the operations of \<^verbatim>\<open>ContactBook\<close> that
  write.
\<close>

inductive opened_book :: "contact_book \<Rightarrow> bool" where
  opened: "distinct (map fst (blocked_patterns b)) \<Longrightarrow> opened_book (load_caches b)"
| closed: "opened_book b \<Longrightarrow> opened_book (close b)"
| blocked: "opened_book b \<Longrightarrow> addBlock b now pattern = Inr b' \<Longrightarrow> opened_book b'"
| unblocked: "opened_book b \<Longrightarrow> removeBlock b pattern = Inr b' \<Longrightarrow> opened_book b'"
| contact_added:
    "opened_book b \<Longrightarrow> addContact b now address key options = Inr b' \<Longrightarrow> opened_book b'"
| pinned: "opened_book b \<Longrightarrow> setPinnedAt b now address = Inr b' \<Longrightarrow> opened_book b'"
| pending_added:
    "opened_book b \<Longrightarrow> addPending b now address crd = Inr b' \<Longrightarrow> opened_book b'"
| pending_removed: "opened_book b \<Longrightarrow> opened_book (removePending b address)"

definition same_block_caches :: "contact_book \<Rightarrow> contact_book \<Rightarrow> bool" where
  "same_block_caches b b' \<longleftrightarrow>
     blockedExact b' = blockedExact b \<and> blockedDomains b' = blockedDomains b"

text \<open>A wire dict all of whose values are strings.\<close>

definition str_entries :: "(jstring \<times> jstring) list \<Rightarrow> wire" where
  "str_entries kss = map (\<lambda>(k, s). (k, JStr s)) kss"

text \<open>The wire dicts handed to the transport between two states, and the type of one.\<close>

definition newly_sent :: "agent_state \<Rightarrow> agent_state \<Rightarrow> wire list" where
  "newly_sent a a' = drop (length (sent a)) (sent a')"

definition wire_type :: "wire \<Rightarrow> json" where
  "wire_type w = field w ''type''"

text \<open>
  A returned message came from one of the received wire dicts: one that parses, whose
  sender is not blocked, and whose type is none of the three handshake types.
\<close>

definition came_from :: "agent_state \<Rightarrow> wire list \<Rightarrow> received_message \<Rightarrow> bool" where
  "came_from a raws m \<longleftrightarrow>
     (\<exists>raw \<in> set raws. \<exists>e. fromWireDict raw = Inr e
        \<and> \<not> isBlocked (contactBook a) (fromAddress e)
        \<and> msgType e \<noteq> HANDSHAKE_REQUEST \<and> msgType e \<noteq> HANDSHAKE_ACCEPT
        \<and> msgType e \<noteq> HANDSHAKE_DENY
        \<and> rm_type m = msgType e \<and> rm_fromAddress m = fromAddress e
        \<and> rm_messageId m = messageId e)"

text \<open>
  Between two states the agent handed to the transport only envelopes whose type is in
  \<open>T\<close>.
\<close>

definition emits_only :: "jstring set \<Rightarrow> agent_state \<Rightarrow> agent_state \<Rightarrow> bool" where
  "emits_only T a a' \<longleftrightarrow>
     (\<exists>ws. sent a' = sent a @ ws \<and> wire_type ` set ws \<subseteq> JStr ` T)"

text \<open>
  A step that leaves the block caches alone and emits only envelopes of the types \<open>T\<close>.
\<close>

definition frame :: "jstring set \<Rightarrow> agent_state \<Rightarrow> agent_state \<Rightarrow> bool" where
  "frame T a a' \<longleftrightarrow>
     same_block_caches (contactBook a) (contactBook a') \<and> emits_only T a a'"

text \<open>
  What the runtime is taken to guarantee for given keys: the codec decodes what it
  encoded; a signature made with a signing key verifies under its verify key; what the
  box encrypts from a sender to a recipient opens at the recipient; what is sealed to a
  recipient opens with the recipient's signing key.
\<close>

definition codec_ok :: "runtime \<Rightarrow> bool" where
  "codec_ok R \<longleftrightarrow> (\<forall>bs. b64Decode R (b64Encode R bs) = bs)"

definition signing_pair :: "runtime \<Rightarrow> bytes \<Rightarrow> bytes \<Rightarrow> bool" where
  "signing_pair R sk vk \<longleftrightarrow>
     (\<forall>data sig. crypto_sign_detached R data sk = Some sig
        \<longrightarrow> crypto_sign_verify_detached R sig data vk = Some True)"

definition box_pair :: "runtime \<Rightarrow> bytes \<Rightarrow> bytes \<Rightarrow> bytes \<Rightarrow> bytes \<Rightarrow> bool" where
  "box_pair R sender_sk sender_vk recipient_sk recipient_vk \<longleftrightarrow>
     (\<forall>s r m n c. sk_to_curve25519 R sender_sk = Some s
        \<longrightarrow> pk_to_curve25519 R recipient_vk = Some r
        \<longrightarrow> crypto_box_easy R m n r s = Some c
        \<longrightarrow> (\<exists>s' r'. pk_to_curve25519 R sender_vk = Some s'
                \<and> sk_to_curve25519 R recipient_sk = Some r'
                \<and> crypto_box_open_easy R c n s' r' = Some m))"

definition seal_pair :: "runtime \<Rightarrow> bytes \<Rightarrow> bytes \<Rightarrow> bool" where
  "seal_pair R recipient_sk recipient_vk \<longleftrightarrow>
     (\<forall>r m seed c. pk_to_curve25519 R recipient_vk = Some r
        \<longrightarrow> crypto_box_seal R m r seed = Some c
        \<longrightarrow> (\<exists>pk sk. sk_to_curve25519 R recipient_sk = Some sk
                \<and> pk_to_curve25519 R (drop 32 recipient_sk) = Some pk
                \<and> crypto_box_seal_open R c pk sk = Some m))"

section \<open>A test runtime\<close>

text \<open>
  A small runtime on which the model runs on concrete inputs: the codecs copy each byte
  to a code unit and back, a signature is the verify key followed by a two-byte checksum
  of the signed bytes (the verify key being the last 32 bytes of the signing key, as in
  libsodium), the box and the sealed box reverse the plaintext, the resolver knows nobody
  and the transport accepts everything. Two agents: Bob, the sender, and Alice, whose contact book holds
  Bob's key under a given trust state.
\<close>

definition test_entropy :: "nat \<Rightarrow> entropy" where
  "test_entropy n =
     \<lparr> uuid = js ''id-'' @ [0x30 + of_nat n], nonce_bytes = replicate 24 0x41,
       iso_now = js ''2026-01-01T00:00:00.000Z'', box_random = replicate 24 0x42 \<rparr>"

definition checksum :: "bytes \<Rightarrow> bytes" where
  "checksum data = [of_nat (length data), of_nat (sum_list (map unat data))]"

definition test_runtime :: runtime where
  "test_runtime =
     \<lparr> toLowerCase = id, trim = id,
       b64Encode = map ucast, b64Decode = map ucast,
       TextDecoder_decode = map ucast,
       JSON_parse = (\<lambda>_. None),
       sha256_hex = (\<lambda>_. []),
       crypto_sign_detached = (\<lambda>data sk. Some (drop 32 sk @ checksum data)),
       crypto_sign_verify_detached = (\<lambda>sig data vk. Some (sig = vk @ checksum data)),
       sk_to_curve25519 = (\<lambda>sk. Some (take 32 sk)),
       pk_to_curve25519 = Some,
       crypto_box_easy = (\<lambda>m n pk sk. Some (rev m)),
       crypto_box_open_easy = (\<lambda>c n pk sk. Some (rev c)),
       crypto_box_seal = (\<lambda>m pk r. Some (rev m)),
       crypto_box_seal_open = (\<lambda>c pk sk. Some (rev c)),
       resolvePublicKey = (\<lambda>_ _ _. None),
       transport_send = (\<lambda>_ _. True),
       entropy_at = test_entropy \<rparr>"

definition bob_sk :: bytes where
  "bob_sk = replicate 32 0x61 @ replicate 32 0x62"

definition bob_vk :: bytes where
  "bob_vk = drop 32 bob_sk"

definition alice_sk :: bytes where
  "alice_sk = replicate 32 0x63 @ replicate 32 0x64"

definition alice_vk :: bytes where
  "alice_vk = drop 32 alice_sk"

definition bob_row :: "jstring \<Rightarrow> contact" where
  "bob_row state =
     \<lparr> public_key = serializeVerifyKey test_runtime bob_vk, display_name = None,
       trust_state = state, trust_source = None, relay = None, relays_json = None,
       pinned_at = Some 5, first_seen = 1, last_seen = 5 \<rparr>"

definition test_book :: "jstring \<Rightarrow> contact_book" where
  "test_book state =
     \<lparr> db_open = True, contacts = [js ''bob::x.y'' \<mapsto> bob_row state],
       pending_handshakes = [], blocked_patterns = [],
       knownAddresses = {js ''bob::x.y''}, blockedExact = {}, blockedDomains = {} \<rparr>"

definition alice :: "jstring \<Rightarrow> jstring \<Rightarrow> agent_state" where
  "alice policy state =
     \<lparr> own_address = js ''alice::x.y'', token = js ''t'', relayUrl = js ''https://r.x.y'',
       relayWsUrl = js ''wss://r.x.y/ws'', config_displayName = js ''alice'',
       trustPolicy = policy, signingKey = alice_sk, contactBook = test_book state,
       sent = [], draws = 0 \<rparr>"

text \<open>
  The envelope that \<^verbatim>\<open>createEnvelope\<close> builds on the test runtime without options,
  written out; Bob's envelope for Alice around the plaintext \<^verbatim>\<open>hello\<close>; and the
  message Alice's inbox makes of it.
\<close>

definition test_envelope ::
  "entropy \<Rightarrow> jstring \<Rightarrow> jstring \<Rightarrow> jstring \<Rightarrow> bytes \<Rightarrow> bytes \<Rightarrow> envelope" where
  "test_envelope ent from to messageType plaintext sk =
     (let unsigned =
            \<lparr> uamVersion = UAM_VERSION, messageId = uuid ent, fromAddress = from,
              toAddress = to, timestamp = iso_now ent, msgType = messageType,
              nonce = map ucast (nonce_bytes ent),
              payload = map ucast (if messageType = HANDSHAKE_REQUEST then rev plaintext
                                   else box_random ent @ rev plaintext),
              signature = [], threadId = None, replyTo = None, expires = None,
              mediaType = None, metadata = None, attachments = None \<rparr>
      in unsigned\<lparr> signature :=
           map ucast (drop 32 sk @ checksum (canonicalize (buildSignableDict unsigned))) \<rparr>)"

definition hello :: bytes where
  "hello = text_encode (js ''hello'')"

definition bob_envelope :: "jstring \<Rightarrow> envelope" where
  "bob_envelope messageType =
     test_envelope (test_entropy 7) (js ''bob::x.y'') (js ''alice::x.y'') messageType hello
       bob_sk"

definition bob_message :: "jstring \<Rightarrow> received_message" where
  "bob_message messageType =
     \<lparr> rm_messageId = js ''id-7'', rm_fromAddress = js ''bob::x.y'',
       rm_toAddress = js ''alice::x.y'', rm_content = js ''hello'',
       rm_timestamp = js ''2026-01-01T00:00:00.000Z'', rm_type = messageType,
       rm_threadId = None, rm_replyTo = None, rm_mediaType = None, rm_verified = True \<rparr>"

text \<open>
  Alice's book after blocking the domain \<^verbatim>\<open>x.y\<close>, and the read receipt Alice sends
  for Bob's message.
\<close>

definition blocking_book :: contact_book where
  "blocking_book =
     (case addBlock (test_book (js ''trusted'')) 3 (js ''*::x.y'') of
        Inl _ \<Rightarrow> test_book (js ''trusted'')
      | Inr b \<Rightarrow> b)"

definition alice_receipt :: envelope where
  "alice_receipt = test_envelope (test_entropy 0) (js ''alice::x.y'') (js ''bob::x.y'')
      RECEIPT_READ (text_encode (json_stringify (JObj [(js ''message_id'', JStr (js ''id-7''))])))
      alice_sk"

text \<open>Alice with that book.\<close>

definition blocking_alice :: agent_state where
  "blocking_alice = (alice (js ''auto-accept'') (js ''trusted''))\<lparr> contactBook := blocking_book \<rparr>"

text \<open>
  Alice after a \<^verbatim>\<open>handshake.accept\<close> from Bob at the given time: Bob is
  \<^verbatim>\<open>pinned\<close>, pinned and last seen at that time.
\<close>

definition alice_pinned :: "jstring \<Rightarrow> jstring \<Rightarrow> nat \<Rightarrow> agent_state" where
  "alice_pinned policy state now =
     (alice policy state)\<lparr> contactBook := (test_book state)
        \<lparr> contacts := [js ''bob::x.y'' \<mapsto>
             (bob_row (js ''pinned''))\<lparr> pinned_at := Some now, last_seen := now \<rparr>] \<rparr> \<rparr>"

text \<open>
  A plaintext of 65,537 bytes, and the envelope that \<^verbatim>\<open>createEnvelope\<close> builds around
  it before it checks the size.
\<close>

definition long_text :: bytes where
  "long_text = replicate 65537 0x61"

definition long_envelope :: envelope where
  "long_envelope =
     test_envelope (test_entropy 7) (js ''bob::x.y'') (js ''alice::x.y'') MESSAGE long_text
       bob_sk"

section \<open>Properties\<close>

lemmas string_simps =
  sortedStringify.simps json_stringify.simps js_def json_quote_def quote_unit_def
  is_high_surrogate_def is_low_surrogate_def
  utf8_code_point_def scalar_of_unit_def

subsection \<open>Canonical JSON\<close>

lemma sortedStringify_permuted:
  assumes "distinct (map fst xs)" and "mset ys = mset xs"
  shows "sortedStringify (JObj ys) = sortedStringify (JObj xs)"
proof -
  have keys: "mset (map fst ys) = mset (map fst xs)"
    using assms(2) by simp
  then have "distinct (map fst ys)"
    using assms(1) by (metis mset_eq_imp_distinct_iff)
  moreover have "set ys = set xs"
    using assms(2) by (rule mset_eq_setD)
  ultimately have "map_of ys = map_of xs"
    using assms(1) by (simp add: map_of_inject_set)
  moreover have "sort (map fst ys) = sort (map fst xs)"
    using keys by (metis properties_for_sort sorted_sort mset_sort)
  ultimately show ?thesis by (simp add: sortedStringify.simps)
qed

text \<open>
  C3. The claim: a string value with a non-ASCII character is emitted with the character
  escaped as \<^verbatim>\<open>\uXXXX\<close>, so that the canonical bytes are ASCII only. The code quotes
  strings with \<^verbatim>\<open>JSON.stringify\<close>, which leaves U+00E9 as it is, and the encoder
  writes it as the two bytes C3 A9: the canonical image of the map
  that sends \<^verbatim>\<open>a\<close> to the one-character string U+00E9 is not ASCII, and differs from
  the image with the escape \<^verbatim>\<open>\u00e9\<close>.
\<close>

theorem canonicalize_keeps_non_ascii:
  "canonicalize [(js ''a'', JStr [0xE9])]
     = [0x7B, 0x22, 0x61, 0x22, 0x3A, 0x22, 0xC3, 0xA9, 0x22, 0x7D]
   \<and> 0xC3 \<in> set (canonicalize [(js ''a'', JStr [0xE9])])
   \<and> canonicalize [(js ''a'', JStr [0xE9])]
        \<noteq> text_encode (js ''{'' @ [0x22] @ js ''a'' @ [0x22] @ js '':'' @ [0x22, 0x5C]
                          @ js ''u00e9'' @ [0x22] @ js ''}'')"
  by (simp add: canonicalize_def string_simps)

text \<open>
  C7. For a map \<open>m\<close> (distinct keys): the canonical bytes do not depend on the order in
  which the keys were inserted; removing an entry whose value is \<^verbatim>\<open>null\<close> (or
  \<^verbatim>\<open>undefined\<close>) leaves the bytes unchanged; and an entry under the key
  \<^verbatim>\<open>signature\<close> has no part in the output, whatever its value.
\<close>

theorem canonicalize_order_null_signature:
  assumes "distinct (map fst m)" and "mset m' = mset m"
  shows "canonicalize m' = canonicalize m
       \<and> canonicalize (xs @ (k, JNull) # ys) = canonicalize (xs @ ys)
       \<and> canonicalize (xs @ (k, JUndefined) # ys) = canonicalize (xs @ ys)
       \<and> canonicalize (xs @ (js ''signature'', v) # ys) = canonicalize (xs @ ys)"
proof -
  let ?keep = "\<lambda>(k, v). k \<noteq> js ''signature'' \<and> v \<noteq> JNull \<and> v \<noteq> JUndefined
                         \<and> k \<noteq> js ''__proto__''"
  have "distinct (map fst (filter ?keep m))"
    using assms(1) by (rule distinct_map_filter)
  moreover have "mset (filter ?keep m') = mset (filter ?keep m)"
    using assms(2) by (metis mset_filter)
  ultimately have "sortedStringify (JObj (filter ?keep m'))
      = sortedStringify (JObj (filter ?keep m))"
    by (rule sortedStringify_permuted)
  then have "canonicalize m' = canonicalize m"
    unfolding canonicalize_def by simp
  then show ?thesis
    by (simp add: canonicalize_def)
qed

theorem canonicalize_order_null_signature_witness:
  "distinct (map fst [(js ''b'', JNum (js ''2'')), (js ''a'', JNum (js ''1''))])
   \<and> mset [(js ''a'', JNum (js ''1'')), (js ''b'', JNum (js ''2''))]
       = mset [(js ''b'', JNum (js ''2'')), (js ''a'', JNum (js ''1''))]
   \<and> canonicalize [(js ''a'', JNum (js ''1'')), (js ''b'', JNum (js ''2''))]
     = canonicalize [(js ''b'', JNum (js ''2'')), (js ''a'', JNum (js ''1''))]
   \<and> canonicalize [(js ''b'', JNum (js ''2'')), (js ''a'', JNum (js ''1'')),
                    (js ''signature'', JStr (js ''x''))]
     = map of_char ''{\"a\":1,\"b\":2}''"
proof -
  let ?m = "[(js ''b'', JNum (js ''2'')), (js ''a'', JNum (js ''1''))]"
  let ?m' = "[(js ''a'', JNum (js ''1'')), (js ''b'', JNum (js ''2''))]"
  have d: "distinct (map fst ?m)" by (simp add: js_def)
  have p: "mset ?m' = mset ?m" by simp
  have "canonicalize ?m' = canonicalize ?m
      \<and> canonicalize (?m @ (js ''signature'', JStr (js ''x'')) # []) = canonicalize (?m @ [])"
    using canonicalize_order_null_signature [OF d p, of ?m "js ''c''" "[]" "JStr (js ''x'')"]
    by blast
  moreover have "canonicalize ?m = map of_char ''{\"a\":1,\"b\":2}''"
    by (simp add: canonicalize_def string_simps)
  ultimately show ?thesis using d p by simp
qed

subsection \<open>Wire format\<close>

lemma distinct_REQUIRED_WIRE_FIELDS: "distinct REQUIRED_WIRE_FIELDS"
  by (simp add: REQUIRED_WIRE_FIELDS_def js_def)

text \<open>
  C9. If the wire dict lacks a required field, \<^verbatim>\<open>fromWireDict\<close> raises
  \<^verbatim>\<open>InvalidEnvelopeError\<close>, and its message is the fixed prefix followed by the JSON
  array of exactly the missing required names, in strictly ascending order; if no
  required field is missing, it returns an envelope.
\<close>

theorem fromWireDict_missing_sorted:
  "(if \<exists>f \<in> set REQUIRED_WIRE_FIELDS. f \<notin> fst ` set d
    then \<exists>ms. fromWireDict d = Inl (InvalidEnvelopeError
                  (js ''Missing required fields: '' @ json_stringify (JArr (map JStr ms))))
           \<and> sorted ms \<and> distinct ms
           \<and> set ms = {f \<in> set REQUIRED_WIRE_FIELDS. f \<notin> fst ` set d}
    else \<exists>e. fromWireDict d = Inr e)"
proof (cases "\<exists>f \<in> set REQUIRED_WIRE_FIELDS. f \<notin> fst ` set d")
  case True
  let ?ms = "sort (missing_fields REQUIRED_WIRE_FIELDS d)"
  have "missing_fields REQUIRED_WIRE_FIELDS d \<noteq> []"
    using True by (auto simp: missing_fields_def filter_empty_conv)
  then have "fromWireDict d = Inl (InvalidEnvelopeError
      (js ''Missing required fields: '' @ json_stringify (JArr (map JStr ?ms))))"
    by (simp add: fromWireDict_def Let_def missing_message_def)
  moreover have "sorted ?ms" by simp
  moreover have "distinct ?ms"
    using distinct_REQUIRED_WIRE_FIELDS by (simp add: missing_fields_def)
  moreover have "set ?ms = {f \<in> set REQUIRED_WIRE_FIELDS. f \<notin> fst ` set d}"
    by (auto simp: missing_fields_def)
  ultimately show ?thesis using True by (intro if_P[THEN iffD2]) blast+
next
  case False
  then have "missing_fields REQUIRED_WIRE_FIELDS d = []"
    by (auto simp: missing_fields_def filter_empty_conv)
  then show ?thesis using False by (simp add: fromWireDict_def Let_def)
qed

theorem fromWireDict_missing_sorted_witness:
  "fromWireDict [(js ''to'', JStr (js ''b::x.y'')), (js ''type'', JStr (js ''message'')),
                 (js ''signature'', JStr (js ''s''))]
     = Inl (InvalidEnvelopeError (js ''Missing required fields: '' @
         json_stringify (JArr (map JStr
           [js ''from'', js ''message_id'', js ''nonce'', js ''payload'', js ''timestamp'',
            js ''uam_version'']))))
   \<and> (\<exists>e. fromWireDict (map (\<lambda>f. (f, JStr (js ''v''))) REQUIRED_WIRE_FIELDS) = Inr e)"
proof -
  let ?d = "[(js ''to'', JStr (js ''b::x.y'')), (js ''type'', JStr (js ''message'')),
             (js ''signature'', JStr (js ''s''))]"
  let ?full = "map (\<lambda>f. (f, JStr (js ''v''))) REQUIRED_WIRE_FIELDS"
  have "\<exists>f \<in> set REQUIRED_WIRE_FIELDS. f \<notin> fst ` set ?d"
    by (simp add: REQUIRED_WIRE_FIELDS_def js_def)
  then obtain ms where
    "fromWireDict ?d = Inl (InvalidEnvelopeError
        (js ''Missing required fields: '' @ json_stringify (JArr (map JStr ms))))"
    using fromWireDict_missing_sorted [of ?d] by (auto split: if_splits)
  then have first: "fromWireDict ?d = Inl (InvalidEnvelopeError (js ''Missing required fields: '' @
         json_stringify (JArr (map JStr
           [js ''from'', js ''message_id'', js ''nonce'', js ''payload'', js ''timestamp'',
            js ''uam_version'']))))"
    by (simp add: fromWireDict_def missing_fields_def missing_message_def
        REQUIRED_WIRE_FIELDS_def js_def Let_def)
  have "\<not> (\<exists>f \<in> set REQUIRED_WIRE_FIELDS. f \<notin> fst ` set ?full)"
    by (simp add: image_image)
  then have "\<exists>e. fromWireDict ?full = Inr e"
    using fromWireDict_missing_sorted [of ?full] by (simp split: if_splits)
  with first show ?thesis by simp
qed

subsection \<open>Block list\<close>

lemma split_from_no_colon:
  "0x3A \<notin> set d \<Longrightarrow> split_from cur d = [cur @ d]"
  by (induction cur d rule: split_from.induct) auto

lemma split_from_first:
  "0x3A \<notin> set a \<Longrightarrow> 0x3A \<notin> set d \<Longrightarrow>
   split_from cur (a @ [0x3A, 0x3A] @ d) = [cur @ a, d]"
proof (induction a arbitrary: cur)
  case Nil
  then show ?case by (simp add: split_from_no_colon)
next
  case (Cons c a)
  then show ?case by (cases a) auto
qed

lemma includes_colons_mid: "includes_colons (a @ [0x3A, 0x3A] @ d)"
  by (induction a rule: includes_colons.induct) auto

lemma js_colons: "js ''::'' = [0x3A, 0x3A]" and js_star: "js ''*::'' = [0x2A, 0x3A, 0x3A]"
  by (simp_all add: js_def)

lemma isBlocked_domain:
  assumes "0x3A \<notin> set agent'" "0x3A \<notin> set domain'"
  shows "isBlocked b (agent' @ js ''::'' @ domain')
         \<longleftrightarrow> agent' @ js ''::'' @ domain' \<in> blockedExact b \<or> domain' \<in> blockedDomains b"
proof -
  have 1: "includes_colons (agent' @ 0x3A # 0x3A # domain')"
    using includes_colons_mid[of agent' domain'] by simp
  have 2: "split_from [] (agent' @ 0x3A # 0x3A # domain') = [agent', domain']"
    using split_from_first[OF assms, of "[]"] by simp
  show ?thesis
    by (simp add: isBlocked_def split_colons_def js_colons 1 2)
qed

lemma in_blockedDomains:
  assumes "block_caches_ok b" and "p \<in> fst ` set (blocked_patterns b)"
    and "prefix (js ''*::'') p"
  shows "drop 3 p \<in> blockedDomains b"
proof -
  have "p \<in> {p \<in> fst ` set (blocked_patterns b). prefix (js ''*::'') p}"
    using assms(2,3) by simp
  then have "drop 3 p \<in> drop 3 ` {p \<in> fst ` set (blocked_patterns b). prefix (js ''*::'') p}"
    by (rule imageI)
  then show ?thesis using assms(1) by (simp add: block_caches_ok_def)
qed

lemma isBlocked_pattern:
  assumes ok: "block_caches_ok b"
    and shape: "0x3A \<notin> set agent'" "0x3A \<notin> set domain'"
    and stored: "agent' @ js ''::'' @ domain' \<in> fst ` set (blocked_patterns b)
                 \<or> js ''*::'' @ domain' \<in> fst ` set (blocked_patterns b)"
  shows "isBlocked b (agent' @ js ''::'' @ domain')"
proof -
  let ?addr = "agent' @ js ''::'' @ domain'"
  have star: "drop 3 ?addr = domain'" if p: "prefix (js ''*::'') ?addr"
  proof -
    have "agent' = [0x2A]"
    proof (cases agent')
      case Nil
      with p show ?thesis by (simp add: js_colons js_star)
    next
      case (Cons c cs)
      with p shape(1) show ?thesis by (cases cs) (auto simp: js_colons js_star)
    qed
    then show ?thesis by (simp add: js_colons)
  qed
  from stored show ?thesis
  proof
    assume ex: "?addr \<in> fst ` set (blocked_patterns b)"
    show ?thesis
    proof (cases "prefix (js ''*::'') ?addr")
      case True
      then have "domain' \<in> blockedDomains b"
        using in_blockedDomains[OF ok ex True] star[OF True] by simp
      then show ?thesis using shape by (simp add: isBlocked_domain)
    next
      case False
      then have "?addr \<in> blockedExact b"
        using ok ex unfolding block_caches_ok_def by simp
      then show ?thesis using shape by (simp add: isBlocked_domain)
    qed
  next
    assume wild: "js ''*::'' @ domain' \<in> fst ` set (blocked_patterns b)"
    have "prefix (js ''*::'') (js ''*::'' @ domain')" by simp
    from in_blockedDomains[OF ok wild this]
    have "domain' \<in> blockedDomains b" by (simp add: js_star)
    then show ?thesis using shape by (simp add: isBlocked_domain)
  qed
qed

lemma star_includes_colons: "prefix (js ''*::'') x \<Longrightarrow> includes_colons x"
  by (auto simp: prefix_def js_star)

lemma isBlocked_stored:
  assumes ok: "block_caches_ok b"
    and shape: "0x3A \<notin> set agent'" "0x3A \<notin> set domain'"
  shows "isBlocked b (agent' @ js ''::'' @ domain')
         \<longleftrightarrow> agent' @ js ''::'' @ domain' \<in> fst ` set (blocked_patterns b)
             \<or> js ''*::'' @ domain' \<in> fst ` set (blocked_patterns b)"
proof
  assume "isBlocked b (agent' @ js ''::'' @ domain')"
  then have "agent' @ js ''::'' @ domain' \<in> blockedExact b \<or> domain' \<in> blockedDomains b"
    using shape by (simp add: isBlocked_domain)
  then show "agent' @ js ''::'' @ domain' \<in> fst ` set (blocked_patterns b)
             \<or> js ''*::'' @ domain' \<in> fst ` set (blocked_patterns b)"
  proof
    assume "agent' @ js ''::'' @ domain' \<in> blockedExact b"
    then show ?thesis using ok unfolding block_caches_ok_def by blast
  next
    assume "domain' \<in> blockedDomains b"
    then obtain p where p: "p \<in> fst ` set (blocked_patterns b)" "prefix (js ''*::'') p"
        "domain' = drop 3 p"
      using ok unfolding block_caches_ok_def by blast
    then have "p = js ''*::'' @ domain'"
      by (auto simp: prefix_def js_star)
    with p(1) show ?thesis by simp
  qed
next
  assume "agent' @ js ''::'' @ domain' \<in> fst ` set (blocked_patterns b)
             \<or> js ''*::'' @ domain' \<in> fst ` set (blocked_patterns b)"
  with ok shape show "isBlocked b (agent' @ js ''::'' @ domain')"
    by (rule isBlocked_pattern)
qed

lemma isBlocked_plain:
  assumes ok: "block_caches_ok b" and plain: "\<not> includes_colons x"
  shows "isBlocked b x \<longleftrightarrow> x \<in> fst ` set (blocked_patterns b)"
proof -
  have "\<not> prefix (js ''*::'') x" using plain star_includes_colons by blast
  then have "x \<in> blockedExact b \<longleftrightarrow> x \<in> fst ` set (blocked_patterns b)"
    using ok unfolding block_caches_ok_def by blast
  then show ?thesis using plain by (simp add: isBlocked_def)
qed

subsection \<open>Processing one inbound envelope\<close>

lemma called_simps:
  "fst (called cs r) = cs @ fst r" "snd (called cs r) = snd r"
  "called cs (cs', x) = (cs @ cs', x)"
  by (simp_all add: called_def)

text \<open>The outcomes without the calls.\<close>

lemma process_verified_eq:
  "process_verified R a now e senderVk =
     (if msgType e = HANDSHAKE_REQUEST \<or> msgType e = HANDSHAKE_ACCEPT
           \<or> msgType e = HANDSHAKE_DENY
      then handleInbound R a now e senderVk
      else if unapproved_sender a (fromAddress e) then Inr (a, None)
      else
        (case decryptPayload R (payload e) (signingKey a) senderVk of
           Inl err \<Rightarrow> if err = DecryptionError then Inr (a, None) else Inl (err, a)
         | Inr plaintextBytes \<Rightarrow>
             Inr (a, Some
               \<lparr> rm_messageId = messageId e,
                 rm_fromAddress = fromAddress e,
                 rm_toAddress = toAddress e,
                 rm_content = TextDecoder_decode R plaintextBytes,
                 rm_timestamp = timestamp e,
                 rm_type = msgType e,
                 rm_threadId = threadId e,
                 rm_replyTo = replyTo e,
                 rm_mediaType = mediaType e,
                 rm_verified = True \<rparr>)))"
  by (simp add: process_verified_def process_verified_traced_def called_simps(2)
      split: sum.splits)

lemma snd_verify_traced:
  "snd (verify_traced R a now e pk) =
     (case verifyEnvelope R e (deserializeVerifyKey R pk) of
        Inl err \<Rightarrow> if err = SignatureVerificationError then Inr (a, None) else Inl (err, a)
      | Inr _ \<Rightarrow> process_verified R a now e (deserializeVerifyKey R pk))"
  by (simp add: verify_traced_def process_verified_def called_simps(2) Let_def
      split: sum.splits)

lemma processInbound_eq:
  "processInbound R a now raw =
     (case fromWireDict raw of
        Inl err \<Rightarrow> Inl (err, a)
      | Inr e \<Rightarrow>
          if isBlocked (contactBook a) (fromAddress e) then Inr (a, None)
          else
            (case sender_key R a (fromAddress e) of
               None \<Rightarrow> Inr (a, None)
             | Some senderPkStr \<Rightarrow>
                 (let senderVk = deserializeVerifyKey R senderPkStr in
                  case verifyEnvelope R e senderVk of
                    Inl err \<Rightarrow>
                      if err = SignatureVerificationError then Inr (a, None)
                      else Inl (err, a)
                  | Inr _ \<Rightarrow> process_verified R a now e senderVk)))"
  by (simp add: processInbound_def processInbound_traced_def sender_key_def called_simps(2)
      snd_verify_traced Let_def split: sum.splits option.splits)

text \<open>
  The calls: a blocked sender ends the run right after the block check; and in every run
  the parse and the block check come first.
\<close>

lemma processInbound_traced_blocked:
  assumes "fromWireDict raw = Inr e" and "isBlocked (contactBook a) (fromAddress e)"
  shows "processInbound_traced R a now raw
           = ([Call_fromWireDict, Call_isBlocked (fromAddress e)], Inr (a, None))"
  using assms by (simp add: processInbound_traced_def called_simps)

lemma processInbound_traced_shape:
  "(\<exists>err. fromWireDict raw = Inl err
        \<and> processInbound_traced R a now raw = ([Call_fromWireDict], Inl (err, a)))
   \<or> (\<exists>e rest. fromWireDict raw = Inr e
        \<and> fst (processInbound_traced R a now raw)
             = Call_fromWireDict # Call_isBlocked (fromAddress e) # rest
        \<and> (isBlocked (contactBook a) (fromAddress e) \<longrightarrow> rest = []))"
proof (cases "fromWireDict raw")
  case (Inl err)
  then show ?thesis by (simp add: processInbound_traced_def called_simps)
next
  case (Inr e)
  then show ?thesis by (simp add: processInbound_traced_def called_simps)
qed

lemma crypto_after_block_check:
  assumes "Call_verifyEnvelope \<in> set (fst (processInbound_traced R a now raw))
         \<or> Call_decryptPayload \<in> set (fst (processInbound_traced R a now raw))
         \<or> Call_handleInbound \<in> set (fst (processInbound_traced R a now raw))"
  shows "\<exists>e rest. fromWireDict raw = Inr e
        \<and> fst (processInbound_traced R a now raw)
             = Call_fromWireDict # Call_isBlocked (fromAddress e) # rest
        \<and> \<not> isBlocked (contactBook a) (fromAddress e)"
  using assms processInbound_traced_shape[of raw R a now] by auto

lemma decryptPayload_error:
  "decryptPayload R c sk vk = Inl err \<Longrightarrow> err = DecryptionError"
  by (auto simp: decryptPayload_def Let_def split: option.splits)

lemma verifySignature_error:
  "verifySignature R d s vk = Inl err \<Longrightarrow> err = SignatureVerificationError"
  by (auto simp: verifySignature_def Let_def split: option.splits if_splits)

lemma handleInbound_result:
  "handleInbound R a now e vk = Inr (a', r) \<Longrightarrow> r = None"
  by (auto simp: handleInbound_def split: sum.splits if_splits)

lemma process_verified_SomeD:
  assumes "process_verified R a now e vk = Inr (a', Some m)"
  shows "a' = a
           \<and> msgType e \<noteq> HANDSHAKE_REQUEST \<and> msgType e \<noteq> HANDSHAKE_ACCEPT
           \<and> msgType e \<noteq> HANDSHAKE_DENY
           \<and> \<not> unapproved_sender a (fromAddress e)
           \<and> rm_type m = msgType e \<and> rm_fromAddress m = fromAddress e
           \<and> rm_messageId m = messageId e"
proof (cases "msgType e = HANDSHAKE_REQUEST \<or> msgType e = HANDSHAKE_ACCEPT
           \<or> msgType e = HANDSHAKE_DENY")
  case True
  then have "handleInbound R a now e vk = Inr (a', Some m)"
    using assms by (simp add: process_verified_eq)
  then show ?thesis by (auto dest: handleInbound_result)
next
  case False
  then show ?thesis using assms
    by (cases "decryptPayload R (payload e) (signingKey a) vk")
       (auto simp: process_verified_eq split: if_splits)
qed

lemma processInbound_SomeD:
  assumes "processInbound R a now raw = Inr (a', Some m)"
  shows "\<exists>e. fromWireDict raw = Inr e \<and> a' = a
           \<and> \<not> isBlocked (contactBook a) (fromAddress e)
           \<and> msgType e \<noteq> HANDSHAKE_REQUEST \<and> msgType e \<noteq> HANDSHAKE_ACCEPT
           \<and> msgType e \<noteq> HANDSHAKE_DENY
           \<and> \<not> unapproved_sender a (fromAddress e)
           \<and> rm_type m = msgType e \<and> rm_fromAddress m = fromAddress e
           \<and> rm_messageId m = messageId e"
proof -
  obtain e where e: "fromWireDict raw = Inr e"
    using assms by (cases "fromWireDict raw") (auto simp: processInbound_eq)
  have nb: "\<not> isBlocked (contactBook a) (fromAddress e)"
    using assms e by (auto simp: processInbound_eq)
  obtain pk where pk: "sender_key R a (fromAddress e) = Some pk"
    using assms e nb by (cases "sender_key R a (fromAddress e)") (auto simp: processInbound_eq)
  have "process_verified R a now e (deserializeVerifyKey R pk) = Inr (a', Some m)"
    using assms e nb pk
    by (cases "verifyEnvelope R e (deserializeVerifyKey R pk)")
       (auto simp: processInbound_eq Let_def split: if_splits)
  from process_verified_SomeD[OF this] e nb show ?thesis by blast
qed

subsection \<open>What a step may change\<close>

lemma isBlocked_same_caches:
  "same_block_caches b b' \<Longrightarrow> isBlocked b' x = isBlocked b x"
  by (auto simp: same_block_caches_def isBlocked_def split: list.splits)

lemma same_block_caches_refl: "same_block_caches b b"
  by (simp add: same_block_caches_def)

lemma same_block_caches_trans:
  "same_block_caches b b' \<Longrightarrow> same_block_caches b' b'' \<Longrightarrow> same_block_caches b b''"
  by (simp add: same_block_caches_def)

lemma addContact_blocks: "addContact b now x k opts = Inr b' \<Longrightarrow> same_block_caches b b'"
  by (auto simp: addContact_def same_block_caches_def Let_def split: if_splits)

lemma addPending_blocks: "addPending b now x c = Inr b' \<Longrightarrow> same_block_caches b b'"
  by (auto simp: addPending_def same_block_caches_def split: if_splits)

lemma setPinnedAt_blocks: "setPinnedAt b now x = Inr b' \<Longrightarrow> same_block_caches b b'"
  by (auto simp: setPinnedAt_def same_block_caches_def split: if_splits option.splits)

lemma removePending_blocks: "same_block_caches b (removePending b x)"
  by (simp add: removePending_def same_block_caches_def)

lemma emits_only_refl: "emits_only T a a"
  by (simp add: emits_only_def)

lemma emits_only_sent_eq: "sent a' = sent a \<Longrightarrow> emits_only T a a'"
  by (simp add: emits_only_def)

lemma emits_only_trans:
  "emits_only T a a' \<Longrightarrow> emits_only T a' a'' \<Longrightarrow> emits_only T a a''"
  unfolding emits_only_def by (elim exE conjE) (rule_tac x="ws @ wsa" in exI, auto)

lemma emits_only_mono:
  assumes "emits_only T a a'" and "T \<subseteq> T'"
  shows "emits_only T' a a'"
proof -
  obtain ws where ws: "sent a' = sent a @ ws" "wire_type ` set ws \<subseteq> JStr ` T"
    using assms(1) unfolding emits_only_def by auto
  have "JStr ` T \<subseteq> JStr ` T'" using assms(2) by (rule image_mono)
  with ws show ?thesis unfolding emits_only_def by (intro exI[of _ ws]) auto
qed

lemma wire_type_toWireDict: "wire_type (toWireDict e) = JStr (msgType e)"
  by (simp add: wire_type_def field_def toWireDict_def buildSignableDict_def js_def)

lemma createEnvelope_InrD:
  assumes "createEnvelope R ent from to ty pt sk vk opts = Inr e"
  shows "\<exists>p s. (if ty = HANDSHAKE_REQUEST then encryptPayloadAnonymous R ent pt vk
                 else encryptPayload R ent pt sk vk) = Inr p
          \<and> e = \<lparr> uamVersion = UAM_VERSION, messageId = uuid ent, fromAddress = from,
                    toAddress = to, timestamp = iso_now ent, msgType = ty,
                    nonce = generateNonce R ent, payload = p, signature = s,
                    threadId = map_option JStr (o_threadId opts),
                    replyTo = map_option JStr (o_replyTo opts),
                    expires = map_option JStr (o_expires opts),
                    mediaType = map_option JStr (o_mediaType opts),
                    metadata = map_option JObj (o_metadata opts),
                    attachments = map_option JArr (o_attachments opts) \<rparr>
          \<and> signMessage R (canonicalize (buildSignableDict e)) sk = Inr s
          \<and> validateEnvelopeSize e = Inr ()
          \<and> (\<exists>x. parseAddress R from = Inr x) \<and> (\<exists>y. parseAddress R to = Inr y)"
proof -
  obtain x where x: "parseAddress R from = Inr x"
    using assms by (cases "parseAddress R from") (simp_all add: createEnvelope_def)
  obtain y where y: "parseAddress R to = Inr y"
    using assms x by (cases "parseAddress R to") (simp_all add: createEnvelope_def)
  let ?enc = "if ty = HANDSHAKE_REQUEST then encryptPayloadAnonymous R ent pt vk
              else encryptPayload R ent pt sk vk"
  obtain p where p: "?enc = Inr p"
    using assms x y by (cases ?enc) (simp_all add: createEnvelope_def Let_def)
  let ?temp = "\<lparr> uamVersion = UAM_VERSION, messageId = uuid ent, fromAddress = from,
                    toAddress = to, timestamp = iso_now ent, msgType = ty,
                    nonce = generateNonce R ent, payload = p, signature = [],
                    threadId = map_option JStr (o_threadId opts),
                    replyTo = map_option JStr (o_replyTo opts),
                    expires = map_option JStr (o_expires opts),
                    mediaType = map_option JStr (o_mediaType opts),
                    metadata = map_option JObj (o_metadata opts),
                    attachments = map_option JArr (o_attachments opts) \<rparr>"
  let ?sig = "signMessage R (canonicalize (buildSignableDict ?temp)) sk"
  obtain s where s: "?sig = Inr s"
    using assms x y p by (cases ?sig) (simp_all add: createEnvelope_def Let_def)
  let ?final = "?temp\<lparr> signature := s \<rparr>"
  have same: "buildSignableDict ?final = buildSignableDict ?temp"
    by (simp add: buildSignableDict_def)
  have v: "validateEnvelopeSize ?final = Inr () \<and> e = ?final"
    using assms x y p s
    by (cases "validateEnvelopeSize ?final") (simp_all add: createEnvelope_def Let_def)
  show ?thesis
    using x y p s v same by (intro exI[of _ p] exI[of _ s]) simp
qed

lemma createEnvelope_msgType:
  "createEnvelope R ent from to ty pt sk vk opts = Inr e \<Longrightarrow> msgType e = ty"
  by (drule createEnvelope_InrD) auto

lemma transport_send_wire_after:
  "state_after (transport_send_wire R a w) = a\<lparr> sent := sent a @ [w] \<rparr>"
  by (simp add: transport_send_wire_def state_after_def Let_def)

lemma emit_book: "contactBook (state_after (emit R a to ty pt vk)) = contactBook a"
proof (cases "createEnvelope R (entropy_at R (draws a)) (own_address a) to ty pt
             (signingKey a) vk no_envelope_options")
  case (Inl err)
  then show ?thesis by (simp add: emit_def state_after_def)
next
  case (Inr e)
  then show ?thesis by (simp add: emit_def transport_send_wire_after)
qed

lemma emit_emits: "emits_only {ty} a (state_after (emit R a to ty pt vk))"
proof (cases "createEnvelope R (entropy_at R (draws a)) (own_address a) to ty pt
             (signingKey a) vk no_envelope_options")
  case (Inl err)
  then show ?thesis by (simp add: emit_def state_after_def emits_only_def)
next
  case (Inr e)
  then have "msgType e = ty" by (rule createEnvelope_msgType)
  then show ?thesis using Inr
    by (simp add: emit_def transport_send_wire_after emits_only_def wire_type_toWireDict)
qed

lemma sendAccept_book: "contactBook (state_after (sendAccept R a to vk)) = contactBook a"
  by (cases "createContactCard R (own_address a) (config_displayName a) (relayWsUrl a)
             (signingKey a)")
     (simp add: sendAccept_def state_after_def, simp add: sendAccept_def emit_book Let_def)

lemma sendDeny_book: "contactBook (state_after (sendDeny R a to vk)) = contactBook a"
  by (simp add: sendDeny_def emit_book Let_def)

lemma sendAccept_emits: "emits_only {HANDSHAKE_ACCEPT} a (state_after (sendAccept R a to vk))"
proof (cases "createContactCard R (own_address a) (config_displayName a) (relayWsUrl a)
             (signingKey a)")
  case (Inl err)
  then show ?thesis by (simp add: sendAccept_def state_after_def emits_only_refl)
next
  case (Inr crd)
  then show ?thesis by (simp add: sendAccept_def emit_emits Let_def)
qed

lemma sendDeny_emits: "emits_only {HANDSHAKE_DENY} a (state_after (sendDeny R a to vk))"
  by (simp add: sendDeny_def emit_emits Let_def)

lemma with_book_after:
  "state_after (with_book a r) = (case r of Inl _ \<Rightarrow> a | Inr b \<Rightarrow> a\<lparr>contactBook := b\<rparr>)"
  by (simp add: with_book_def state_after_def split: sum.splits)

lemma frame_refl: "frame T a a"
  by (simp add: frame_def same_block_caches_refl emits_only_refl)

lemma frame_trans: "frame T a a' \<Longrightarrow> frame T a' a'' \<Longrightarrow> frame T a a''"
  unfolding frame_def using same_block_caches_trans emits_only_trans by metis

lemma frame_mono: "frame T a a' \<Longrightarrow> T \<subseteq> T' \<Longrightarrow> frame T' a a'"
  unfolding frame_def using emits_only_mono by metis

lemma frame_book:
  "same_block_caches (contactBook a) b \<Longrightarrow> frame T a (a\<lparr>contactBook := b\<rparr>)"
  by (simp add: frame_def emits_only_def)

lemma frame_emit: "frame {ty} a (state_after (emit R a to ty pt vk))"
  by (simp add: frame_def emit_book emit_emits same_block_caches_refl)

lemma frame_sendAccept: "frame {HANDSHAKE_ACCEPT} a (state_after (sendAccept R a to vk))"
  by (simp add: frame_def sendAccept_book sendAccept_emits same_block_caches_refl)

lemma frame_sendDeny: "frame {HANDSHAKE_DENY} a (state_after (sendDeny R a to vk))"
  by (simp add: frame_def sendDeny_book sendDeny_emits same_block_caches_refl)

lemma state_after_Inl: "state_after (Inl (err, a)) = a"
  and state_after_Inr: "state_after (Inr (a, x)) = a"
  by (simp_all add: state_after_def)

lemma frame_with_book:
  assumes "\<And>b. r = Inr b \<Longrightarrow> same_block_caches (contactBook a) b"
  shows "frame T a (state_after (with_book a r))"
  using assms by (cases r) (simp_all add: with_book_def state_after_def frame_refl frame_book)

lemma frame_handleRequest:
  "frame {HANDSHAKE_ACCEPT, HANDSHAKE_DENY} a (state_after (handleRequest R a now e vk))"
proof (cases "decryptPayloadAnonymous R (payload e) (signingKey a)")
  case (Inl err)
  then show ?thesis by (simp add: handleRequest_def state_after_Inl frame_refl)
next
  case plain: (Inr plaintext)
  show ?thesis
  proof (cases "parse_card_dict R (TextDecoder_decode R plaintext)")
    case (Inl err)
    then show ?thesis using plain by (simp add: handleRequest_def state_after_Inl frame_refl)
  next
    case dict: (Inr cardDict)
    show ?thesis
    proof (cases "contactCardFromDict R cardDict True")
      case (Inl err)
      then show ?thesis using plain dict
        by (simp add: handleRequest_def state_after_Inl frame_refl)
    next
      case crd: (Inr crd)
      show ?thesis
      proof (cases "verifyContactCard R crd")
        case (Inl err)
        then show ?thesis using plain dict crd
          by (simp add: handleRequest_def state_after_Inl frame_refl)
      next
        case ok: (Inr u)
        let ?add = "addContact (contactBook a) now (card_address crd) (publicKey crd)
                     (no_options\<lparr> opt_displayName := Some (displayName crd),
                                  opt_trustState := Some (js ''provisional''),
                                  opt_trustSource := Some (js ''auto-accepted-provisional'') \<rparr>)"
        consider (auto) "trustPolicy a = js ''auto-accept''"
          | (deny) "trustPolicy a \<noteq> js ''auto-accept''" "trustPolicy a = js ''allowlist-only''"
          | (pending) "trustPolicy a \<noteq> js ''auto-accept''" "trustPolicy a \<noteq> js ''allowlist-only''"
          by blast
        then show ?thesis
        proof cases
          case auto
          show ?thesis
          proof (cases ?add)
            case (Inl err)
            then show ?thesis using plain dict crd ok auto
              by (simp add: handleRequest_def with_book_def state_after_Inl frame_refl)
          next
            case (Inr b)
            then have 1: "frame {HANDSHAKE_ACCEPT, HANDSHAKE_DENY} a (a\<lparr>contactBook := b\<rparr>)"
              by (intro frame_book addContact_blocks)
            have 2: "frame {HANDSHAKE_ACCEPT, HANDSHAKE_DENY} (a\<lparr>contactBook := b\<rparr>)
                       (state_after (sendAccept R (a\<lparr>contactBook := b\<rparr>) (fromAddress e) vk))"
              by (rule frame_mono[OF frame_sendAccept]) simp
            show ?thesis using plain dict crd ok auto Inr frame_trans[OF 1 2]
              by (simp add: handleRequest_def with_book_def)
          qed
        next
          case deny
          then show ?thesis using plain dict crd ok
            by (simp add: handleRequest_def frame_mono[OF frame_sendDeny])
        next
          case pending
          then show ?thesis using plain dict crd ok
            by (simp add: handleRequest_def frame_with_book addPending_blocks)
        qed
      qed
    qed
  qed
qed

lemma frame_handleAccept:
  "frame T a (state_after (handleAccept R a now e vk))"
proof -
  let ?add = "addContact (contactBook a) now (fromAddress e) (serializeVerifyKey R vk)
             (no_options\<lparr> opt_trustState := Some (js ''pinned'') \<rparr>)"
  show ?thesis
  proof (cases ?add)
    case (Inl err)
    then show ?thesis
      by (simp add: handleAccept_def Let_def with_book_def state_after_Inl frame_refl)
  next
    case (Inr b)
    then have 1: "frame T a (a\<lparr>contactBook := b\<rparr>)"
      by (intro frame_book addContact_blocks)
    have 2: "frame T (a\<lparr>contactBook := b\<rparr>)
        (state_after (with_book (a\<lparr>contactBook := b\<rparr>) (setPinnedAt b now (fromAddress e))))"
      by (rule frame_with_book) (simp add: setPinnedAt_blocks)
    show ?thesis using Inr frame_trans[OF 1 2]
      by (simp add: handleAccept_def Let_def with_book_def)
  qed
qed

lemma state_after_handleInbound:
  "state_after (handleInbound R a now e vk) =
     (if msgType e = HANDSHAKE_REQUEST then state_after (handleRequest R a now e vk)
      else if msgType e = HANDSHAKE_ACCEPT then state_after (handleAccept R a now e vk)
      else a)"
  by (auto simp: handleInbound_def state_after_def split: sum.splits)

lemma frame_handleInbound:
  "frame {HANDSHAKE_ACCEPT, HANDSHAKE_DENY} a (state_after (handleInbound R a now e vk))"
  by (simp add: state_after_handleInbound frame_handleRequest frame_handleAccept frame_refl)

lemma state_after_process_verified:
  "state_after (process_verified R a now e vk) =
     (if msgType e = HANDSHAKE_REQUEST \<or> msgType e = HANDSHAKE_ACCEPT
           \<or> msgType e = HANDSHAKE_DENY
      then state_after (handleInbound R a now e vk) else a)"
  by (auto simp: process_verified_eq state_after_def split: sum.splits)

lemma frame_process_verified:
  "frame {HANDSHAKE_ACCEPT, HANDSHAKE_DENY} a (state_after (process_verified R a now e vk))"
  by (simp add: state_after_process_verified frame_handleInbound frame_refl)

lemma state_after_processInbound:
  "state_after (processInbound R a now raw) = a
   \<or> (\<exists>e vk. fromWireDict raw = Inr e
         \<and> state_after (processInbound R a now raw) = state_after (process_verified R a now e vk))"
proof (cases "fromWireDict raw")
  case (Inl err)
  then show ?thesis by (simp add: processInbound_eq state_after_Inl)
next
  case (Inr e)
  show ?thesis
  proof (cases "isBlocked (contactBook a) (fromAddress e)")
    case True
    then show ?thesis using Inr by (simp add: processInbound_eq state_after_Inr)
  next
    case nb: False
    show ?thesis
    proof (cases "sender_key R a (fromAddress e)")
      case None
      then show ?thesis using Inr nb by (simp add: processInbound_eq state_after_Inr)
    next
      case (Some pk)
      show ?thesis
      proof (cases "verifyEnvelope R e (deserializeVerifyKey R pk)")
        case (Inl err)
        then show ?thesis using Inr nb Some
          by (simp add: processInbound_eq state_after_Inr state_after_Inl)
      next
        case ok: (Inr u)
        then show ?thesis using Inr nb Some
          by (auto simp: processInbound_eq)
      qed
    qed
  qed
qed

lemma frame_processInbound:
  "frame {HANDSHAKE_ACCEPT, HANDSHAKE_DENY} a (state_after (processInbound R a now raw))"
  using state_after_processInbound[of R a now raw]
  by (auto simp: frame_refl frame_process_verified)

lemma sendReadReceipt_protocol:
  "prefix (js ''receipt.'') (rm_type m) \<or> prefix (js ''handshake.'') (rm_type m)
     \<or> prefix (js ''session.'') (rm_type m) \<Longrightarrow> sendReadReceipt R a m = a"
  by (simp add: sendReadReceipt_def)

lemma frame_sendReadReceipt: "frame {RECEIPT_READ} a (sendReadReceipt R a m)"
  by (cases "getPublicKey (contactBook a) (rm_fromAddress m)")
     (simp_all add: sendReadReceipt_def Let_def frame_refl frame_emit)

lemma sendReadReceipt_sent:
  assumes "sent (sendReadReceipt R a m) \<noteq> sent a"
  shows "\<not> prefix (js ''receipt.'') (rm_type m) \<and> \<not> prefix (js ''handshake.'') (rm_type m)
     \<and> \<not> prefix (js ''session.'') (rm_type m)"
  using assms sendReadReceipt_protocol[of m R a] by auto

lemma receive_one_cases:
  obtains (error) err a' where "processInbound R a now raw = Inl (err, a')"
      "receive_one R a now raw = Inl (err, a')"
  | (dropped) a' where "processInbound R a now raw = Inr (a', None)"
      "receive_one R a now raw = Inr (a', None)"
  | (returned) m where "processInbound R a now raw = Inr (a, Some m)"
      "receive_one R a now raw = Inr (sendReadReceipt R a m, Some m)"
proof (cases "processInbound R a now raw")
  case (Inl x)
  then show ?thesis using error by (cases x) (simp add: receive_one_def)
next
  case (Inr y)
  obtain a' r where y: "y = (a', r)" by (cases y)
  show ?thesis
  proof (cases r)
    case None
    then show ?thesis using Inr y dropped by (simp add: receive_one_def)
  next
    case (Some m)
    then have "a' = a" using Inr y processInbound_SomeD[of R a now raw a' m] by auto
    then show ?thesis using Inr y Some returned by (simp add: receive_one_def)
  qed
qed

lemma frame_receive_one:
  "frame {HANDSHAKE_ACCEPT, HANDSHAKE_DENY, RECEIPT_READ} a (state_after (receive_one R a now raw))"
proof (cases rule: receive_one_cases[of R a now raw])
  case (error err a')
  then have "state_after (receive_one R a now raw) = state_after (processInbound R a now raw)"
    by (simp add: state_after_Inl)
  then show ?thesis
    using frame_mono[OF frame_processInbound[of a R now raw]] by simp
next
  case (dropped a')
  then have "state_after (receive_one R a now raw) = state_after (processInbound R a now raw)"
    by (simp add: state_after_Inr)
  then show ?thesis
    using frame_mono[OF frame_processInbound[of a R now raw]] by simp
next
  case (returned m)
  then show ?thesis
    using frame_mono[OF frame_sendReadReceipt[of a R m]] by (simp add: state_after_Inr)
qed

lemma newly_sent_emits_only:
  "emits_only T a a' \<Longrightarrow> wire_type ` set (newly_sent a a') \<subseteq> JStr ` T"
  by (auto simp: emits_only_def newly_sent_def)

lemma receipt_read_not_handshake:
  "RECEIPT_READ \<noteq> HANDSHAKE_ACCEPT" "RECEIPT_READ \<noteq> HANDSHAKE_DENY"
  "RECEIPT_READ \<noteq> RECEIPT_FAILED"
  by (simp_all add: RECEIPT_READ_def HANDSHAKE_ACCEPT_def HANDSHAKE_DENY_def RECEIPT_FAILED_def js_def)

lemma no_receipt_from_processInbound:
  "JStr RECEIPT_READ \<notin> wire_type ` set (newly_sent a (state_after (processInbound R a now raw)))"
proof -
  have "emits_only {HANDSHAKE_ACCEPT, HANDSHAKE_DENY} a (state_after (processInbound R a now raw))"
    using frame_processInbound[of a R now raw] by (simp add: frame_def)
  from newly_sent_emits_only[OF this] show ?thesis
    using receipt_read_not_handshake by auto
qed

subsection \<open>The inbox loop\<close>

lemma frame_sweep_entry: "frame {RECEIPT_FAILED} a (sweep_entry R entry a)"
proof -
  define a1 where "a1 =
        (case parse_card_dict R (contactCard entry) of
           Inl _ \<Rightarrow> a
         | Inr cardDict \<Rightarrow>
        (case contactCardFromDict R cardDict True of
           Inl _ \<Rightarrow> a
         | Inr crd \<Rightarrow>
             (let recipientVk = deserializeVerifyKey R (publicKey crd);
                  failPayload = json_stringify (JObj
                    [(js ''reason'', JStr (js ''handshake_expired'')),
                     (js ''original_from'', JStr (pending_address entry))])
              in state_after (emit R a (pending_address entry) RECEIPT_FAILED
                                (text_encode failPayload) recipientVk))))"
  have 1: "frame {RECEIPT_FAILED} a a1"
    unfolding a1_def
    by (simp add: frame_refl frame_emit Let_def split: sum.splits)
  have 2: "frame {RECEIPT_FAILED} a1
             (a1\<lparr> contactBook := removePending (contactBook a1) (pending_address entry) \<rparr>)"
    by (rule frame_book) (rule removePending_blocks)
  have "sweep_entry R entry a
          = a1\<lparr> contactBook := removePending (contactBook a1) (pending_address entry) \<rparr>"
    unfolding sweep_entry_def a1_def Let_def by simp
  with frame_trans[OF 1 2] show ?thesis by simp
qed

lemma frame_fold_sweep: "frame {RECEIPT_FAILED} a (fold (sweep_entry R) entries a)"
proof (induction entries arbitrary: a)
  case Nil
  show ?case by (simp add: frame_refl)
next
  case (Cons entry entries)
  show ?case
    using frame_trans[OF frame_sweep_entry[of a R entry] Cons.IH[of "sweep_entry R entry a"]]
    by simp
qed

lemma frame_sweepExpiredHandshakes:
  "frame {RECEIPT_FAILED} a (sweepExpiredHandshakes R a now)"
  by (simp add: sweepExpiredHandshakes_def frame_fold_sweep)

lemma frame_isBlocked:
  "frame T a a' \<Longrightarrow> isBlocked (contactBook a') x = isBlocked (contactBook a) x"
  by (simp add: frame_def isBlocked_same_caches)

lemma inbox_loop_messages:
  "inbox_loop R a now raws acc = Inr (a', msgs)
   \<Longrightarrow> \<exists>new. msgs = acc @ new \<and> (\<forall>m \<in> set new. came_from a raws m)"
proof (induction raws arbitrary: a acc)
  case Nil
  then show ?case by simp
next
  case (Cons raw raws)
  show ?case
  proof (cases rule: receive_one_cases[of R a now raw])
    case (error err a1)
    then show ?thesis using Cons.prems by simp
  next
    case (dropped a1)
    have fr: "frame {HANDSHAKE_ACCEPT, HANDSHAKE_DENY, RECEIPT_READ} a a1"
      using frame_receive_one[of a R now raw] dropped(2) by (simp add: state_after_Inr)
    have "inbox_loop R a1 now raws acc = Inr (a', msgs)"
      using Cons.prems dropped(2) by simp
    from Cons.IH[OF this] obtain new where
      new: "msgs = acc @ new" "\<forall>m \<in> set new. came_from a1 raws m" by blast
    have "\<forall>m \<in> set new. came_from a (raw # raws) m"
      using new(2) frame_isBlocked[OF fr] unfolding came_from_def by auto
    with new(1) show ?thesis by blast
  next
    case (returned m)
    let ?a1 = "sendReadReceipt R a m"
    have fr: "frame {HANDSHAKE_ACCEPT, HANDSHAKE_DENY, RECEIPT_READ} a ?a1"
      using frame_receive_one[of a R now raw] returned(2) by (simp add: state_after_Inr)
    have "inbox_loop R ?a1 now raws (acc @ [m]) = Inr (a', msgs)"
      using Cons.prems returned(2) by simp
    from Cons.IH[OF this] obtain new where
      new: "msgs = (acc @ [m]) @ new" "\<forall>m \<in> set new. came_from ?a1 raws m" by blast
    have rest: "\<forall>m \<in> set new. came_from a (raw # raws) m"
      using new(2) frame_isBlocked[OF fr] unfolding came_from_def by auto
    have "came_from a (raw # raws) m"
      using processInbound_SomeD[OF returned(1)] unfolding came_from_def by auto
    with rest new(1) show ?thesis by (intro exI[of _ "m # new"]) simp
  qed
qed

lemma inbox_messages:
  assumes "inbox R a now raws = Inr (a', msgs)" and "m \<in> set msgs"
  shows "came_from a raws m"
proof -
  let ?a0 = "sweepExpiredHandshakes R a now"
  have "inbox_loop R ?a0 now raws [] = Inr (a', msgs)"
    using assms(1) by (simp add: inbox_def)
  from inbox_loop_messages[OF this] assms(2) have "came_from ?a0 raws m" by simp
  then show ?thesis
    using frame_isBlocked[OF frame_sweepExpiredHandshakes[of a R now]]
    unfolding came_from_def by auto
qed

subsection \<open>Sizes\<close>

lemma length_js: "length (js s) = length s"
  by (simp add: js_def)

lemma length_quote_unit: "length (quote_unit c) \<le> 6"
  by (simp add: quote_unit_def unicode_escape_def)

lemma length_quote_units: "length (quote_units s) \<le> 6 * length s"
proof (induction s rule: quote_units.induct)
  case 1
  show ?case by simp
next
  case (2 c)
  show ?case using length_quote_unit[of c] by simp
next
  case (3 c d ds)
  then show ?case using length_quote_unit[of c] by (auto split: if_splits)
qed

lemma length_json_quote: "length (json_quote s) \<le> 6 * length s + 2"
  using length_quote_units[of s] by (simp add: json_quote_def)

lemma length_utf8_unit: "length (utf8_code_point (scalar_of_unit c)) \<le> 3"
proof -
  have "unat c < 2 ^ LENGTH(16)" by (rule unsigned_less)
  then have "unat c < 65536" by simp
  then show ?thesis by (simp add: utf8_code_point_def scalar_of_unit_def)
qed

lemma length_utf8_code_point: "length (utf8_code_point n) \<le> 4"
  by (simp add: utf8_code_point_def)

lemma length_text_encode: "length (text_encode s) \<le> 3 * length s"
proof (induction s rule: text_encode.induct)
  case 1
  show ?case by simp
next
  case (2 c)
  show ?case using length_utf8_unit[of c] by simp
next
  case (3 c d ds)
  show ?case
  proof (cases "is_high_surrogate c \<and> is_low_surrogate d")
    case True
    then show ?thesis
      using 3(1) length_utf8_code_point[of "0x10000 + (unat c - 0xD800) * 0x400 + (unat d - 0xDC00)"]
      by simp
  next
    case False
    then have "text_encode (c # d # ds)
        = utf8_code_point (scalar_of_unit c) @ text_encode (d # ds)"
      by (simp only: text_encode.simps if_False)
    then show ?thesis using 3(2)[OF False] length_utf8_unit[of c] by simp
  qed
qed

lemma length_join:
  "length (join sep xs) \<le> sum_list (map length xs) + length sep * length xs"
  by (induction sep xs rule: join.induct) auto

lemma length_json_stringify_strs:
  "length (json_stringify (JObj (str_entries kss)))
     \<le> 2 + (\<Sum>(k, s)\<leftarrow>kss. 6 * length k + 6 * length s + 6)"
proof -
  let ?entry = "\<lambda>kv. json_quote (fst kv) @ js '':'' @ json_stringify (snd kv)"
  have keep: "filter (\<lambda>kv. snd kv \<noteq> JUndefined) (str_entries kss) = str_entries kss"
    by (auto simp: str_entries_def filter_id_conv)
  have each: "length (?entry kv) \<le> 6 * length k + 6 * length s + 5"
    if "kv = (k, JStr s)" for kv k s
    using that length_json_quote[of k] length_json_quote[of s]
    by (simp add: json_stringify.simps length_js)
  have "sum_list (map length (map ?entry (str_entries kss)))
      \<le> (\<Sum>(k, s)\<leftarrow>kss. 6 * length k + 6 * length s + 5)"
  proof (induction kss)
    case Nil
    show ?case by (simp add: str_entries_def)
  next
    case (Cons ks kss)
    obtain k s where ks: "ks = (k, s)" by (cases ks)
    show ?case using Cons each[of "(k, JStr s)" k s] ks
      by (simp add: str_entries_def)
  qed
  moreover have "length (str_entries kss) = length kss" by (simp add: str_entries_def)
  moreover have "(\<Sum>(k, s)\<leftarrow>kss. 6 * length k + 6 * length s + 5) + length kss
       = (\<Sum>(k, s)\<leftarrow>kss. 6 * length k + 6 * length s + 6)"
    by (induction kss) auto
  ultimately show ?thesis
    using length_join[of "js '',''" "map ?entry (str_entries kss)"]
    by (simp add: json_stringify.simps keep length_js)
qed

text \<open>Lower bounds: the wire JSON is at least as long as the payload it carries.\<close>

lemma length_utf8_code_point_pos: "1 \<le> length (utf8_code_point n)"
  by (simp add: utf8_code_point_def)

lemma length_text_encode_ge: "length s \<le> length (text_encode s)"
proof (induction s rule: text_encode.induct)
  case 1
  show ?case by simp
next
  case (2 c)
  show ?case using length_utf8_code_point_pos[of "scalar_of_unit c"] by simp
next
  case (3 c d ds)
  show ?case
  proof (cases "is_high_surrogate c \<and> is_low_surrogate d")
    case True
    have "length (utf8_code_point (0x10000 + (unat c - 0xD800) * 0x400 + (unat d - 0xDC00))) = 4"
      by (simp add: utf8_code_point_def)
    then show ?thesis using True 3(1) by simp
  next
    case False
    then have "text_encode (c # d # ds)
        = utf8_code_point (scalar_of_unit c) @ text_encode (d # ds)"
      by (simp only: text_encode.simps if_False)
    then show ?thesis
      using 3(2)[OF False] length_utf8_code_point_pos[of "scalar_of_unit c"] by simp
  qed
qed

lemma length_quote_unit_pos: "1 \<le> length (quote_unit c)"
  by (simp add: quote_unit_def unicode_escape_def)

lemma length_quote_units_ge: "length s \<le> length (quote_units s)"
proof (induction s rule: quote_units.induct)
  case 1
  show ?case by simp
next
  case (2 c)
  show ?case using length_quote_unit_pos[of c] by simp
next
  case (3 c d ds)
  then show ?case using length_quote_unit_pos[of c] by (auto split: if_splits)
qed

lemma length_join_ge: "x \<in> set xs \<Longrightarrow> length x \<le> length (join sep xs)"
  by (induction sep xs rule: join.induct) auto

lemma length_json_stringify_entry:
  assumes "(k, JStr s) \<in> set kvs"
  shows "length s \<le> length (json_stringify (JObj kvs))"
proof -
  let ?entry = "\<lambda>kv. json_quote (fst kv) @ js '':'' @ json_stringify (snd kv)"
  have "(k, JStr s) \<in> set (filter (\<lambda>kv. snd kv \<noteq> JUndefined) kvs)"
    using assms by simp
  then have "?entry (k, JStr s) \<in> ?entry ` set (filter (\<lambda>kv. snd kv \<noteq> JUndefined) kvs)"
    by (rule imageI)
  then have "?entry (k, JStr s) \<in> set (map ?entry (filter (\<lambda>kv. snd kv \<noteq> JUndefined) kvs))"
    by (simp only: set_map)
  then have "length (?entry (k, JStr s))
      \<le> length (join (js '','') (map ?entry (filter (\<lambda>kv. snd kv \<noteq> JUndefined) kvs)))"
    by (rule length_join_ge)
  moreover have "length s \<le> length (?entry (k, JStr s))"
    using length_quote_units_ge[of s] by (simp add: json_stringify.simps json_quote_def)
  ultimately show ?thesis by (simp add: json_stringify.simps)
qed

lemma wire_size_ge_payload:
  "length (payload e) \<le> length (text_encode (json_stringify (JObj (toWireDict e))))"
proof -
  have "(js ''payload'', JStr (payload e)) \<in> set (toWireDict e)"
    by (simp add: toWireDict_def buildSignableDict_def)
  then have "length (payload e) \<le> length (json_stringify (JObj (toWireDict e)))"
    by (rule length_json_stringify_entry)
  then show ?thesis
    using length_text_encode_ge[of "json_stringify (JObj (toWireDict e))"] by simp
qed

subsection \<open>Created envelopes\<close>

lemma ucast_byte: "(ucast (ucast (b :: 8 word) :: 16 word) :: 8 word) = b"
  by (rule ucast_up_ucast_id) (simp add: is_up)

lemma created_envelope_signed:
  assumes "createEnvelope R ent from to ty pt sk vk opts = Inr e"
  shows "signMessage R (canonicalize (buildSignableDict e)) sk = Inr (signature e)"
  using createEnvelope_InrD[OF assms] by auto

lemma created_envelope_verifies:
  assumes "codec_ok R" and "signing_pair R sk sender_vk"
    and "createEnvelope R ent from to ty pt sk vk opts = Inr e"
  shows "verifyEnvelope R e sender_vk = Inr ()"
proof -
  let ?data = "canonicalize (buildSignableDict e)"
  have "signMessage R ?data sk = Inr (signature e)"
    using assms(3) by (rule created_envelope_signed)
  then obtain sig where sig: "crypto_sign_detached R ?data sk = Some sig"
      "signature e = b64Encode R sig"
    by (auto simp: signMessage_def split: option.splits)
  have "crypto_sign_verify_detached R sig ?data sender_vk = Some True"
    using assms(2) sig(1) by (simp add: signing_pair_def)
  moreover have "b64Decode R (signature e) = sig"
    using assms(1) sig(2) by (simp add: codec_ok_def)
  ultimately show ?thesis
    by (simp add: verifyEnvelope_def verifySignature_def)
qed

lemma created_envelope_payload:
  assumes "createEnvelope R ent from to ty pt sk vk opts = Inr e"
  shows "msgType e = ty
       \<and> (if ty = HANDSHAKE_REQUEST then encryptPayloadAnonymous R ent pt vk
          else encryptPayload R ent pt sk vk) = Inr (payload e)"
  using createEnvelope_InrD[OF assms] by auto

lemma encryptPayload_decrypts:
  assumes "codec_ok R" and "box_pair R sk sender_vk recipient_sk vk"
    and "length (box_random ent) = crypto_box_NONCEBYTES"
    and "encryptPayload R ent pt sk vk = Inr p"
  shows "decryptPayload R p recipient_sk sender_vk = Inr pt"
proof -
  obtain s r c where enc: "sk_to_curve25519 R sk = Some s" "pk_to_curve25519 R vk = Some r"
      "crypto_box_easy R pt (box_random ent) r s = Some c"
      "p = b64Encode R (box_random ent @ c)"
    using assms(4) by (auto simp: encryptPayload_def Let_def split: option.splits)
  obtain s' r' where dec: "pk_to_curve25519 R sender_vk = Some s'"
      "sk_to_curve25519 R recipient_sk = Some r'"
      "crypto_box_open_easy R c (box_random ent) s' r' = Some pt"
    using assms(2) enc(1,2,3) unfolding box_pair_def by blast
  have "b64Decode R p = box_random ent @ c"
    using assms(1) enc(4) by (simp add: codec_ok_def)
  then show ?thesis
    using dec assms(3) by (simp add: decryptPayload_def Let_def)
qed

lemma encryptPayloadAnonymous_decrypts:
  assumes "codec_ok R" and "seal_pair R recipient_sk vk"
    and "encryptPayloadAnonymous R ent pt vk = Inr p"
  shows "decryptPayloadAnonymous R p recipient_sk = Inr pt"
proof -
  obtain r c where enc: "pk_to_curve25519 R vk = Some r"
      "crypto_box_seal R pt r (box_random ent) = Some c" "p = b64Encode R c"
    using assms(3) by (auto simp: encryptPayloadAnonymous_def split: option.splits)
  obtain pk sk' where dec: "sk_to_curve25519 R recipient_sk = Some sk'"
      "pk_to_curve25519 R (drop 32 recipient_sk) = Some pk"
      "crypto_box_seal_open R c pk sk' = Some pt"
    using assms(2) enc(1,2) unfolding seal_pair_def by blast
  have "b64Decode R p = c"
    using assms(1) enc(3) by (simp add: codec_ok_def)
  then show ?thesis
    using dec by (simp add: decryptPayloadAnonymous_def Let_def)
qed

lemma created_envelope_decrypts:
  assumes "codec_ok R" and "box_pair R sk sender_vk recipient_sk vk"
    and "seal_pair R recipient_sk vk"
    and "length (box_random ent) = crypto_box_NONCEBYTES"
    and "createEnvelope R ent from to ty pt sk vk opts = Inr e"
  shows "if msgType e = HANDSHAKE_REQUEST
         then decryptPayloadAnonymous R (payload e) recipient_sk = Inr pt
         else decryptPayload R (payload e) recipient_sk sender_vk = Inr pt"
proof (cases "ty = HANDSHAKE_REQUEST")
  case True
  then have "encryptPayloadAnonymous R ent pt vk = Inr (payload e)" "msgType e = ty"
    using created_envelope_payload[OF assms(5)] by simp_all
  then show ?thesis
    using True encryptPayloadAnonymous_decrypts[OF assms(1,3)] by simp
next
  case False
  then have "encryptPayload R ent pt sk vk = Inr (payload e)" "msgType e = ty"
    using created_envelope_payload[OF assms(5)] by simp_all
  then show ?thesis
    using False encryptPayload_decrypts[OF assms(1,2,4)] by simp
qed

lemma validateEnvelopeSize_iff:
  "validateEnvelopeSize e =
     (if length (text_encode (json_stringify (JObj (toWireDict e)))) > MAX_ENVELOPE_SIZE
      then Inl EnvelopeTooLargeError else Inr ())"
  by (simp add: validateEnvelopeSize_def Let_def)

lemma created_envelope_size:
  assumes "createEnvelope R ent from to ty pt sk vk opts = Inr e"
  shows "length (text_encode (json_stringify (JObj (toWireDict e)))) \<le> MAX_ENVELOPE_SIZE"
proof -
  have "validateEnvelopeSize e = Inr ()"
    using createEnvelope_InrD[OF assms] by auto
  then show ?thesis
    by (simp add: validateEnvelopeSize_iff split: if_splits)
qed

lemma createEnvelope_InrI:
  assumes "parseAddress R from = Inr x" and "parseAddress R to = Inr y"
    and "(if ty = HANDSHAKE_REQUEST then encryptPayloadAnonymous R ent pt vk
          else encryptPayload R ent pt sk vk) = Inr p"
    and "e = \<lparr> uamVersion = UAM_VERSION, messageId = uuid ent, fromAddress = from,
                    toAddress = to, timestamp = iso_now ent, msgType = ty,
                    nonce = generateNonce R ent, payload = p, signature = s,
                    threadId = map_option JStr (o_threadId opts),
                    replyTo = map_option JStr (o_replyTo opts),
                    expires = map_option JStr (o_expires opts),
                    mediaType = map_option JStr (o_mediaType opts),
                    metadata = map_option JObj (o_metadata opts),
                    attachments = map_option JArr (o_attachments opts) \<rparr>"
    and "signMessage R (canonicalize (buildSignableDict e)) sk = Inr s"
    and "validateEnvelopeSize e = Inr ()"
  shows "createEnvelope R ent from to ty pt sk vk opts = Inr e"
proof -
  have same: "buildSignableDict (e\<lparr> signature := [] \<rparr>) = buildSignableDict e"
    by (simp add: buildSignableDict_def)
  have temp: "e\<lparr> signature := [] \<rparr> = \<lparr> uamVersion = UAM_VERSION, messageId = uuid ent, fromAddress = from,
                    toAddress = to, timestamp = iso_now ent, msgType = ty,
                    nonce = generateNonce R ent, payload = p, signature = [],
                    threadId = map_option JStr (o_threadId opts),
                    replyTo = map_option JStr (o_replyTo opts),
                    expires = map_option JStr (o_expires opts),
                    mediaType = map_option JStr (o_mediaType opts),
                    metadata = map_option JObj (o_metadata opts),
                    attachments = map_option JArr (o_attachments opts) \<rparr>"
    using assms(4) by simp
  show ?thesis
    using assms(1,2,3,5,6) same
    unfolding createEnvelope_def temp[symmetric] Let_def assms(4)[symmetric]
    by (simp add: temp assms(4)[symmetric])
qed

text \<open>
  Once the addresses parse and encryption and signing succeed, the size check decides.
\<close>

lemma createEnvelope_cases:
  assumes "parseAddress R from = Inr x" and "parseAddress R to = Inr y"
    and "(if ty = HANDSHAKE_REQUEST then encryptPayloadAnonymous R ent pt vk
          else encryptPayload R ent pt sk vk) = Inr p"
    and "e0 = \<lparr> uamVersion = UAM_VERSION, messageId = uuid ent, fromAddress = from,
                    toAddress = to, timestamp = iso_now ent, msgType = ty,
                    nonce = generateNonce R ent, payload = p, signature = [],
                    threadId = map_option JStr (o_threadId opts),
                    replyTo = map_option JStr (o_replyTo opts),
                    expires = map_option JStr (o_expires opts),
                    mediaType = map_option JStr (o_mediaType opts),
                    metadata = map_option JObj (o_metadata opts),
                    attachments = map_option JArr (o_attachments opts) \<rparr>"
    and "signMessage R (canonicalize (buildSignableDict e0)) sk = Inr s"
  shows "createEnvelope R ent from to ty pt sk vk opts =
           (if MAX_ENVELOPE_SIZE
                 < length (text_encode (json_stringify (JObj (toWireDict (e0\<lparr> signature := s \<rparr>)))))
            then Inl EnvelopeTooLargeError else Inr (e0\<lparr> signature := s \<rparr>))"
  using assms(1,2,3,5) unfolding assms(4)
  by (simp add: createEnvelope_def Let_def validateEnvelopeSize_iff)

subsection \<open>The test runtime\<close>

lemma parse_test_addresses:
  "parseAddress test_runtime (js ''bob::x.y'') = Inr \<lparr>agent = js ''bob'', domain = js ''x.y''\<rparr>"
  "parseAddress test_runtime (js ''alice::x.y'') = Inr \<lparr>agent = js ''alice'', domain = js ''x.y''\<rparr>"
  by (simp_all add: parseAddress_def test_runtime_def address_match_def label_ok_def js_def
      MAX_ADDRESS_LEN_def MAX_AGENT_LEN_def is_agent_unit_def is_domain_unit_def is_lower_alnum_def)

lemma test_codec: "b64Decode test_runtime (b64Encode test_runtime bs) = bs"
  by (simp add: test_runtime_def ucast_byte o_def)

lemma test_codec_ok: "codec_ok test_runtime"
  by (simp add: codec_ok_def test_codec)

lemma test_signing_pair: "signing_pair test_runtime sk (drop 32 sk)"
  by (auto simp: signing_pair_def test_runtime_def)

lemma test_box_pair: "box_pair test_runtime sk vk sk' vk'"
  by (auto simp: box_pair_def test_runtime_def)

lemma test_seal_pair: "seal_pair test_runtime sk vk"
  by (auto simp: seal_pair_def test_runtime_def)

lemma toWireDict_plain:
  assumes "threadId e = None" "replyTo e = None" "expires e = None" "mediaType e = None"
    "metadata e = None" "attachments e = None"
  shows "toWireDict e = str_entries
     [(js ''uam_version'', uamVersion e), (js ''message_id'', messageId e),
      (js ''from'', fromAddress e), (js ''to'', toAddress e),
      (js ''timestamp'', timestamp e), (js ''type'', msgType e),
      (js ''nonce'', nonce e), (js ''payload'', payload e),
      (js ''signature'', signature e)]"
  using assms by (simp add: toWireDict_def buildSignableDict_def opt_entry_def str_entries_def)

lemma wire_size_plain:
  assumes "threadId e = None" "replyTo e = None" "expires e = None" "mediaType e = None"
    "metadata e = None" "attachments e = None"
  shows "length (text_encode (json_stringify (JObj (toWireDict e))))
     \<le> 3 * (422 + 6 * (length (uamVersion e) + length (messageId e) + length (fromAddress e)
           + length (toAddress e) + length (timestamp e) + length (msgType e)
           + length (nonce e) + length (payload e) + length (signature e)))"
proof -
  have "length (json_stringify (JObj (toWireDict e)))
     \<le> 422 + 6 * (length (uamVersion e) + length (messageId e) + length (fromAddress e)
           + length (toAddress e) + length (timestamp e) + length (msgType e)
           + length (nonce e) + length (payload e) + length (signature e))"
    using length_json_stringify_strs[of "[(js ''uam_version'', uamVersion e), (js ''message_id'', messageId e),
      (js ''from'', fromAddress e), (js ''to'', toAddress e),
      (js ''timestamp'', timestamp e), (js ''type'', msgType e),
      (js ''nonce'', nonce e), (js ''payload'', payload e),
      (js ''signature'', signature e)]"]
    by (simp add: toWireDict_plain[OF assms] length_js)
  then show ?thesis
    by (rule order_trans[OF length_text_encode mult_le_mono2])
qed

lemma fromWireDict_toWireDict_plain:
  assumes "threadId e = None" "replyTo e = None" "expires e = None" "mediaType e = None"
    "metadata e = None" "attachments e = None"
  shows "fromWireDict (toWireDict e) = Inr e"
  using assms
  by (simp add: toWireDict_plain[OF assms] str_entries_def fromWireDict_def missing_fields_def
      REQUIRED_WIRE_FIELDS_def field_def opt_field_def js_def Let_def)

lemma test_envelope_fields:
  "uamVersion (test_envelope ent from to ty pt sk) = UAM_VERSION"
  "messageId (test_envelope ent from to ty pt sk) = uuid ent"
  "fromAddress (test_envelope ent from to ty pt sk) = from"
  "toAddress (test_envelope ent from to ty pt sk) = to"
  "timestamp (test_envelope ent from to ty pt sk) = iso_now ent"
  "msgType (test_envelope ent from to ty pt sk) = ty"
  "nonce (test_envelope ent from to ty pt sk) = map ucast (nonce_bytes ent)"
  "payload (test_envelope ent from to ty pt sk)
     = map ucast (if ty = HANDSHAKE_REQUEST then rev pt else box_random ent @ rev pt)"
  "threadId (test_envelope ent from to ty pt sk) = None"
  "replyTo (test_envelope ent from to ty pt sk) = None"
  "expires (test_envelope ent from to ty pt sk) = None"
  "mediaType (test_envelope ent from to ty pt sk) = None"
  "metadata (test_envelope ent from to ty pt sk) = None"
  "attachments (test_envelope ent from to ty pt sk) = None"
  by (simp_all add: test_envelope_def Let_def)

lemma test_envelope_signature:
  "signature (test_envelope ent from to ty pt sk)
     = map ucast (drop 32 sk @ checksum (canonicalize (buildSignableDict
         (test_envelope ent from to ty pt sk))))"
  by (simp add: test_envelope_def Let_def buildSignableDict_def)

lemma test_createEnvelope:
  assumes "parseAddress test_runtime from = Inr x" and "parseAddress test_runtime to = Inr y"
    and "length (uuid ent) + length from + length to + length (iso_now ent) + length ty
           + length (nonce_bytes ent) + length (box_random ent) + length pt
           + length sk \<le> 1000"
  shows "createEnvelope test_runtime ent from to ty pt sk vk no_envelope_options
           = Inr (test_envelope ent from to ty pt sk)"
proof (rule createEnvelope_InrI[OF assms(1,2)])
  let ?e = "test_envelope ent from to ty pt sk"
  show "(if ty = HANDSHAKE_REQUEST then encryptPayloadAnonymous test_runtime ent pt vk
         else encryptPayload test_runtime ent pt sk vk) = Inr (payload ?e)"
    by (simp add: test_envelope_fields encryptPayloadAnonymous_def encryptPayload_def
        test_runtime_def Let_def)
  show "?e = \<lparr> uamVersion = UAM_VERSION, messageId = uuid ent, fromAddress = from,
                    toAddress = to, timestamp = iso_now ent, msgType = ty,
                    nonce = generateNonce test_runtime ent, payload = payload ?e,
                    signature = signature ?e,
                    threadId = map_option JStr (o_threadId no_envelope_options),
                    replyTo = map_option JStr (o_replyTo no_envelope_options),
                    expires = map_option JStr (o_expires no_envelope_options),
                    mediaType = map_option JStr (o_mediaType no_envelope_options),
                    metadata = map_option JObj (o_metadata no_envelope_options),
                    attachments = map_option JArr (o_attachments no_envelope_options) \<rparr>"
    by (simp add: test_envelope_def Let_def generateNonce_def no_envelope_options_def
        test_runtime_def)
  show "signMessage test_runtime (canonicalize (buildSignableDict ?e)) sk = Inr (signature ?e)"
    by (simp add: signMessage_def test_envelope_signature) (simp add: test_runtime_def)
  have "length (signature ?e) \<le> length sk + 2"
    by (simp add: test_envelope_signature checksum_def)
  moreover have "length (payload ?e) \<le> length (box_random ent) + length pt"
    by (simp add: test_envelope_fields)
  ultimately have "length (uamVersion ?e) + length (messageId ?e) + length (fromAddress ?e)
           + length (toAddress ?e) + length (timestamp ?e) + length (msgType ?e)
           + length (nonce ?e) + length (payload ?e) + length (signature ?e) \<le> 1005"
    using assms(3) by (simp add: test_envelope_fields UAM_VERSION_def length_js)
  then have "3 * (422 + 6 * (length (uamVersion ?e) + length (messageId ?e) + length (fromAddress ?e)
           + length (toAddress ?e) + length (timestamp ?e) + length (msgType ?e)
           + length (nonce ?e) + length (payload ?e) + length (signature ?e))) \<le> MAX_ENVELOPE_SIZE"
    by (simp add: MAX_ENVELOPE_SIZE_def)
  with wire_size_plain[of ?e]
  have "length (text_encode (json_stringify (JObj (toWireDict ?e)))) \<le> MAX_ENVELOPE_SIZE"
    by (simp add: test_envelope_fields)
  then show "validateEnvelopeSize ?e = Inr ()"
    by (simp add: validateEnvelopeSize_iff)
qed

lemma processInbound_verified:
  assumes "fromWireDict raw = Inr e" and "\<not> isBlocked (contactBook a) (fromAddress e)"
    and "sender_key R a (fromAddress e) = Some pk"
    and "verifyEnvelope R e (deserializeVerifyKey R pk) = Inr ()"
  shows "processInbound R a now raw = process_verified R a now e (deserializeVerifyKey R pk)"
  using assms by (simp add: processInbound_eq Let_def)

lemma length_hello: "length hello \<le> 15"
  using length_text_encode[of "js ''hello''"] by (simp add: hello_def length_js)

lemma bob_created:
  assumes "length ty \<le> 64"
  shows "createEnvelope test_runtime (test_entropy 7) (js ''bob::x.y'') (js ''alice::x.y'') ty
           hello bob_sk alice_vk no_envelope_options = Inr (bob_envelope ty)"
  unfolding bob_envelope_def
proof (rule test_createEnvelope[OF parse_test_addresses])
  show "length (uuid (test_entropy 7)) + length (js ''bob::x.y'') + length (js ''alice::x.y'')
          + length (iso_now (test_entropy 7)) + length ty + length (nonce_bytes (test_entropy 7))
          + length (box_random (test_entropy 7)) + length hello + length bob_sk \<le> 1000"
    using assms length_hello by (simp add: test_entropy_def length_js bob_sk_def)
qed

lemma bob_verifies:
  assumes "length ty \<le> 64"
  shows "verifyEnvelope test_runtime (bob_envelope ty) bob_vk = Inr ()"
  unfolding bob_vk_def
  by (rule created_envelope_verifies[OF test_codec_ok test_signing_pair bob_created[OF assms]])

lemma bob_decrypts:
  assumes "length ty \<le> 64" and "ty \<noteq> HANDSHAKE_REQUEST"
  shows "decryptPayload test_runtime (payload (bob_envelope ty)) alice_sk bob_vk = Inr hello"
proof -
  have "length (box_random (test_entropy 7)) = crypto_box_NONCEBYTES"
    by (simp add: test_entropy_def crypto_box_NONCEBYTES_def)
  from created_envelope_decrypts[where sender_vk = bob_vk and recipient_sk = alice_sk,
      OF test_codec_ok test_box_pair test_seal_pair this bob_created[OF assms(1)]]
  show ?thesis using assms(2) by (simp add: bob_envelope_def test_envelope_fields)
qed

lemma bob_roundtrip: "fromWireDict (toWireDict (bob_envelope ty)) = Inr (bob_envelope ty)"
  unfolding bob_envelope_def
  by (rule fromWireDict_toWireDict_plain) (simp_all add: test_envelope_fields)

lemma bob_fields:
  "messageId (bob_envelope ty) = js ''id-7''"
  "fromAddress (bob_envelope ty) = js ''bob::x.y''"
  "toAddress (bob_envelope ty) = js ''alice::x.y''"
  "timestamp (bob_envelope ty) = js ''2026-01-01T00:00:00.000Z''"
  "msgType (bob_envelope ty) = ty"
  "threadId (bob_envelope ty) = None"
  "replyTo (bob_envelope ty) = None"
  "mediaType (bob_envelope ty) = None"
  by (simp_all add: bob_envelope_def test_envelope_fields test_entropy_def js_def)

lemma decode_hello: "TextDecoder_decode test_runtime hello = js ''hello''"
  by (simp add: test_runtime_def hello_def js_def utf8_code_point_def scalar_of_unit_def
      is_high_surrogate_def is_low_surrogate_def)

lemma alice_not_blocked: "\<not> isBlocked (contactBook (alice policy state)) x"
  by (simp add: alice_def test_book_def isBlocked_def split: list.splits)

lemma alice_knows_bob:
  "sender_key test_runtime (alice policy state) (js ''bob::x.y'')
     = Some (serializeVerifyKey test_runtime bob_vk)"
  by (simp add: sender_key_def getPublicKey_def alice_def test_book_def bob_row_def)

lemma alice_trust:
  "getTrustState (contactBook (alice policy state)) (js ''bob::x.y'') = Some state"
  by (simp add: getTrustState_def alice_def test_book_def bob_row_def)

lemma alice_processes:
  assumes "length ty \<le> 64"
  shows "processInbound test_runtime (alice policy state) now (toWireDict (bob_envelope ty))
     = process_verified test_runtime (alice policy state) now (bob_envelope ty) bob_vk"
proof -
  have vk: "deserializeVerifyKey test_runtime (serializeVerifyKey test_runtime bob_vk) = bob_vk"
    by (simp add: deserializeVerifyKey_def serializeVerifyKey_def test_codec)
  show ?thesis
    using processInbound_verified[where R = test_runtime and a = "alice policy state"
        and pk = "serializeVerifyKey test_runtime bob_vk" and now = now,
        OF bob_roundtrip alice_not_blocked, of ty]
      alice_knows_bob[of policy state] bob_verifies[OF assms]
    by (simp add: vk bob_fields)
qed

lemma alice_delivers:
  assumes "length ty \<le> 64" and "ty \<noteq> HANDSHAKE_REQUEST" "ty \<noteq> HANDSHAKE_ACCEPT"
    "ty \<noteq> HANDSHAKE_DENY"
  shows "processInbound test_runtime (alice policy state) now (toWireDict (bob_envelope ty))
     = (if unapproved_sender (alice policy state) (js ''bob::x.y'')
        then Inr (alice policy state, None)
        else Inr (alice policy state, Some (bob_message ty)))"
proof -
  have sk: "signingKey (alice policy state) = alice_sk" by (simp add: alice_def)
  show ?thesis
    using assms bob_decrypts[OF assms(1,2)]
    by (simp add: alice_processes process_verified_eq bob_fields sk decode_hello
        bob_message_def)
qed

lemma type_lengths:
  "length MESSAGE \<le> 64" "length RECEIPT_READ \<le> 64"
  by (simp_all add: MESSAGE_def RECEIPT_READ_def length_js)

lemma type_distinct:
  "MESSAGE \<noteq> HANDSHAKE_REQUEST" "MESSAGE \<noteq> HANDSHAKE_ACCEPT" "MESSAGE \<noteq> HANDSHAKE_DENY"
  "RECEIPT_READ \<noteq> HANDSHAKE_REQUEST" "RECEIPT_READ \<noteq> MESSAGE"
  by (simp_all add: MESSAGE_def RECEIPT_READ_def HANDSHAKE_REQUEST_def HANDSHAKE_ACCEPT_def
      HANDSHAKE_DENY_def js_def)

lemma auto_accept_approves: "\<not> unapproved_sender (alice (js ''auto-accept'') state) x"
  by (simp add: unapproved_sender_def alice_def)

lemma alice_bob_key:
  "deserializeVerifyKey test_runtime (serializeVerifyKey test_runtime bob_vk) = bob_vk"
  by (simp add: deserializeVerifyKey_def serializeVerifyKey_def test_codec)

lemma alice_traced:
  assumes "length ty \<le> 64"
  shows "processInbound_traced test_runtime (alice policy state) now (toWireDict (bob_envelope ty))
     = called [Call_fromWireDict, Call_isBlocked (js ''bob::x.y''),
               Call_getPublicKey (js ''bob::x.y''),
               Call_deserializeVerifyKey (serializeVerifyKey test_runtime bob_vk),
               Call_verifyEnvelope]
         (process_verified_traced test_runtime (alice policy state) now (bob_envelope ty) bob_vk)"
proof -
  have key: "getPublicKey (contactBook (alice policy state)) (js ''bob::x.y'')
      = Some (serializeVerifyKey test_runtime bob_vk)"
    by (simp add: getPublicKey_def alice_def test_book_def bob_row_def)
  show ?thesis
    using bob_verifies[OF assms] alice_not_blocked[of policy state "js ''bob::x.y''"]
    by (simp add: processInbound_traced_def verify_traced_def bob_roundtrip bob_fields key
        alice_bob_key called_def Let_def)
qed

lemma alice_traced_message:
  "processInbound_traced test_runtime (alice (js ''auto-accept'') state) now
       (toWireDict (bob_envelope MESSAGE))
     = ([Call_fromWireDict, Call_isBlocked (js ''bob::x.y''),
         Call_getPublicKey (js ''bob::x.y''),
         Call_deserializeVerifyKey (serializeVerifyKey test_runtime bob_vk),
         Call_verifyEnvelope, Call_decryptPayload],
        Inr (alice (js ''auto-accept'') state, Some (bob_message MESSAGE)))"
proof -
  have sk: "signingKey (alice (js ''auto-accept'') state) = alice_sk"
    and pol: "trustPolicy (alice (js ''auto-accept'') state) = js ''auto-accept''"
    by (simp_all add: alice_def)
  show ?thesis
    using bob_decrypts[OF type_lengths(1) type_distinct(1)] type_distinct(1,2,3)
      auto_accept_approves[of state "js ''bob::x.y''"]
    by (simp add: alice_traced[OF type_lengths(1)] process_verified_traced_def bob_fields sk pol
        decode_hello bob_message_def called_def)
qed

lemma long_envelope_unsigned:
  "long_envelope\<lparr> signature := [] \<rparr>
     = \<lparr> uamVersion = UAM_VERSION, messageId = uuid (test_entropy 7),
         fromAddress = js ''bob::x.y'', toAddress = js ''alice::x.y'',
         timestamp = iso_now (test_entropy 7), msgType = MESSAGE,
         nonce = generateNonce test_runtime (test_entropy 7),
         payload = payload long_envelope, signature = [],
         threadId = map_option JStr (o_threadId no_envelope_options),
         replyTo = map_option JStr (o_replyTo no_envelope_options),
         expires = map_option JStr (o_expires no_envelope_options),
         mediaType = map_option JStr (o_mediaType no_envelope_options),
         metadata = map_option JObj (o_metadata no_envelope_options),
         attachments = map_option JArr (o_attachments no_envelope_options) \<rparr>"
  by (simp add: long_envelope_def test_envelope_def Let_def generateNonce_def
      no_envelope_options_def test_runtime_def)

lemma long_envelope_payload:
  "encryptPayload test_runtime (test_entropy 7) long_text bob_sk alice_vk
     = Inr (payload long_envelope)"
  by (simp add: long_envelope_def test_envelope_fields encryptPayload_def test_runtime_def
      Let_def type_distinct(1))

lemma long_envelope_signed:
  "signMessage test_runtime (canonicalize (buildSignableDict (long_envelope\<lparr> signature := [] \<rparr>)))
     bob_sk = Inr (signature long_envelope)"
proof -
  have "buildSignableDict (long_envelope\<lparr> signature := [] \<rparr>) = buildSignableDict long_envelope"
    by (simp add: buildSignableDict_def)
  then show ?thesis
    by (simp add: signMessage_def long_envelope_def test_envelope_signature)
       (simp add: test_runtime_def)
qed

lemma long_envelope_size:
  "65536 < length (text_encode (json_stringify (JObj (toWireDict long_envelope))))"
proof -
  have "length long_text = 65537"
    by (simp only: long_text_def length_replicate)
  then have "65537 \<le> length (payload long_envelope)"
    by (simp add: long_envelope_def test_envelope_fields type_distinct(1))
  with wire_size_ge_payload[of long_envelope] show ?thesis by simp
qed

subsection \<open>Trust states\<close>

text \<open>
  Under \<^verbatim>\<open>auto-accept\<close>, a verified \<^verbatim>\<open>handshake.request\<close> whose contact card is
  valid stores the card's key under the card's address as \<^verbatim>\<open>provisional\<close>, whatever
  the book held for that address before.
\<close>

lemma handleRequest_auto_accept_replaces_key:
  assumes "decryptPayloadAnonymous R (payload e) (signingKey a) = Inr plaintext"
    and "parse_card_dict R (TextDecoder_decode R plaintext) = Inr cardDict"
    and "contactCardFromDict R cardDict True = Inr crd"
    and "verifyContactCard R crd = Inr ()"
    and "trustPolicy a = js ''auto-accept''"
    and "db_open (contactBook a)"
  shows "getPublicKey (contactBook (state_after (handleRequest R a now e vk))) (card_address crd)
           = Some (publicKey crd)
       \<and> getTrustState (contactBook (state_after (handleRequest R a now e vk))) (card_address crd)
           = Some (js ''provisional'')"
proof -
  let ?opts = "no_options\<lparr> opt_displayName := Some (displayName crd),
                          opt_trustState := Some (js ''provisional''),
                          opt_trustSource := Some (js ''auto-accepted-provisional'') \<rparr>"
  obtain b where b: "addContact (contactBook a) now (card_address crd) (publicKey crd) ?opts = Inr b"
      "getPublicKey b (card_address crd) = Some (publicKey crd)"
      "getTrustState b (card_address crd) = Some (js ''provisional'')"
    using assms(6)
    by (auto simp: addContact_def getPublicKey_def getTrustState_def Let_def split: option.splits)
  have "handleRequest R a now e vk = sendAccept R (a\<lparr>contactBook := b\<rparr>) (fromAddress e) vk"
    using assms(1-5) b(1) by (simp add: handleRequest_def with_book_def)
  then have "contactBook (state_after (handleRequest R a now e vk)) = b"
    by (simp add: sendAccept_book)
  with b(2,3) show ?thesis by simp
qed

text \<open>
  C1. The claim: once a contact is \<^verbatim>\<open>pinned\<close>, \<^verbatim>\<open>add_contact\<close> for the same address
  with a different public key is rejected or raises a key-pinning error, and never
  silently replaces the stored key. In the code \<^verbatim>\<open>addContact\<close> is an unconditional
  upsert: on the book that holds Bob as \<^verbatim>\<open>pinned\<close>, a call with another key and no
  options succeeds, and afterwards the stored key is the new one and the trust state is
  \<^verbatim>\<open>trusted\<close>. The handshake manager reaches the same upsert with the key of a
  received contact card (the lemma above).
\<close>

theorem addContact_replaces_pinned_key:
  "getTrustState (test_book (js ''pinned'')) (js ''bob::x.y'') = Some (js ''pinned'')
   \<and> getPublicKey (test_book (js ''pinned'')) (js ''bob::x.y'')
       = Some (serializeVerifyKey test_runtime bob_vk)
   \<and> serializeVerifyKey test_runtime bob_vk \<noteq> js ''k2''
   \<and> (case addContact (test_book (js ''pinned'')) 20 (js ''bob::x.y'') (js ''k2'') no_options of
         Inl err \<Rightarrow> False
       | Inr b \<Rightarrow> getPublicKey b (js ''bob::x.y'') = Some (js ''k2'')
                  \<and> getTrustState b (js ''bob::x.y'') = Some (js ''trusted''))"
  by (simp add: addContact_def test_book_def bob_row_def no_options_def getTrustState_def
      getPublicKey_def serializeVerifyKey_def test_runtime_def bob_vk_def bob_sk_def js_def
      Let_def)
     (auto dest: arg_cong[where f=length])

text \<open>
  C10. With no \<^verbatim>\<open>trustState\<close> option, \<^verbatim>\<open>addContact\<close> on an open book stores the
  contact as \<^verbatim>\<open>trusted\<close>, whatever the address, the key and the other options: a state
  that \<^verbatim>\<open>isTrustedOrVerified\<close> accepts and that the trust filter of
  \<^verbatim>\<open>_processInbound\<close> lets through under every policy, and neither \<^verbatim>\<open>unknown\<close> nor
  \<^verbatim>\<open>unverified\<close>.
\<close>

theorem addContact_default_trusted:
  assumes "db_open (contactBook a)"
  shows "\<exists>b'. addContact (contactBook a) now address key (options\<lparr>opt_trustState := None\<rparr>)
               = Inr b'
     \<and> getTrustState b' address = Some (js ''trusted'')
     \<and> getTrustState b' address \<noteq> Some (js ''unknown'')
     \<and> getTrustState b' address \<noteq> Some (js ''unverified'')
     \<and> isTrustedOrVerified b' address
     \<and> \<not> unapproved_sender (a\<lparr>contactBook := b'\<rparr>) address"
  using assms
  by (auto simp: addContact_def getTrustState_def isTrustedOrVerified_def
      unapproved_sender_def Let_def js_def split: option.splits)

theorem addContact_default_trusted_witness:
  "db_open (contactBook (alice (js ''approval-required'') (js ''pinned'')))
   \<and> (\<exists>b'. addContact (contactBook (alice (js ''approval-required'') (js ''pinned''))) 9
               (js ''carol::x.y'') (js ''k'') no_options = Inr b'
     \<and> getTrustState b' (js ''carol::x.y'') = Some (js ''trusted'')
     \<and> isTrustedOrVerified b' (js ''carol::x.y'')
     \<and> \<not> unapproved_sender ((alice (js ''approval-required'') (js ''pinned''))
            \<lparr>contactBook := b'\<rparr>) (js ''carol::x.y''))"
proof -
  have o: "db_open (contactBook (alice (js ''approval-required'') (js ''pinned'')))"
    by (simp add: alice_def test_book_def)
  have n: "no_options\<lparr>opt_trustState := None\<rparr> = no_options"
    by (simp add: no_options_def)
  show ?thesis
    using addContact_default_trusted[OF o, of 9 "js ''carol::x.y''" "js ''k''" no_options] o
    unfolding n by blast
qed

text \<open>
  C2. The claim: under a policy other than \<^verbatim>\<open>auto-accept\<close>, a well-signed, decryptable
  \<^verbatim>\<open>message\<close> envelope from a sender whose trust state is \<^verbatim>\<open>pinned\<close> is returned.
  In the code the filter of \<^verbatim>\<open>_processInbound\<close> lets only \<^verbatim>\<open>trusted\<close> and
  \<^verbatim>\<open>verified\<close> through, while \<^verbatim>\<open>isTrustedOrVerified\<close> also accepts \<^verbatim>\<open>pinned\<close>.
  Bob's \<^verbatim>\<open>message\<close> envelope verifies under his key and decrypts to \<^verbatim>\<open>hello\<close>; with
  the policy \<^verbatim>\<open>approval-required\<close> Alice drops it when Bob is \<^verbatim>\<open>pinned\<close>, and returns
  it when Bob is \<^verbatim>\<open>trusted\<close>.
\<close>

theorem pinned_sender_message_dropped:
  "verifyEnvelope test_runtime (bob_envelope MESSAGE) bob_vk = Inr ()
   \<and> decryptPayload test_runtime (payload (bob_envelope MESSAGE)) alice_sk bob_vk = Inr hello
   \<and> getTrustState (test_book (js ''pinned'')) (js ''bob::x.y'') = Some (js ''pinned'')
   \<and> isTrustedOrVerified (test_book (js ''pinned'')) (js ''bob::x.y'')
   \<and> processInbound test_runtime (alice (js ''approval-required'') (js ''pinned'')) 10
         (toWireDict (bob_envelope MESSAGE))
       = Inr (alice (js ''approval-required'') (js ''pinned''), None)
   \<and> processInbound test_runtime (alice (js ''approval-required'') (js ''trusted'')) 10
         (toWireDict (bob_envelope MESSAGE))
       = Inr (alice (js ''approval-required'') (js ''trusted''), Some (bob_message MESSAGE))"
proof -
  have 1: "unapproved_sender (alice (js ''approval-required'') (js ''pinned'')) (js ''bob::x.y'')"
    by (simp add: unapproved_sender_def alice_trust) (simp add: alice_def js_def)
  have 2: "\<not> unapproved_sender (alice (js ''approval-required'') (js ''trusted'')) (js ''bob::x.y'')"
    by (simp add: unapproved_sender_def alice_trust)
  have 3: "getTrustState (test_book (js ''pinned'')) (js ''bob::x.y'') = Some (js ''pinned'')"
    using alice_trust[of "js ''approval-required''" "js ''pinned''"] by (simp add: alice_def)
  show ?thesis
    using bob_verifies[OF type_lengths(1)] bob_decrypts[OF type_lengths(1) type_distinct(1)]
      alice_delivers[OF type_lengths(1) type_distinct(1,2,3)] 1 2 3
    by (simp add: isTrustedOrVerified_def)
qed

subsection \<open>Block caches\<close>

lemma block_caches_ok_addBlock:
  assumes "block_caches_ok b" and "addBlock b now p = Inr b'"
  shows "block_caches_ok b' \<and> p \<in> fst ` set (blocked_patterns b')"
proof -
  let ?t = "if p \<in> set (map fst (blocked_patterns b)) then blocked_patterns b
            else blocked_patterns b @ [(p, now)]"
  let ?b1 = "b\<lparr> blocked_patterns := ?t \<rparr>"
  have b': "b' = cacheBlockPattern ?b1 p"
    using assms(2) by (simp add: addBlock_def split: if_splits)
  have keys: "fst ` set ?t = insert p (fst ` set (blocked_patterns b))"
    by auto
  have d: "distinct (map fst ?t)"
    using assms(1) by (auto simp: block_caches_ok_def)
  show ?thesis
  proof (cases "prefix (js ''*::'') p")
    case True
    then show ?thesis
      using assms(1) d keys unfolding b' block_caches_ok_def cacheBlockPattern_def
      by (auto simp del: set_map)
  next
    case False
    then show ?thesis
      using assms(1) d keys unfolding b' block_caches_ok_def cacheBlockPattern_def
      by (auto simp del: set_map)
  qed
qed

lemma drop3_star_inj:
  "prefix (js ''*::'') p \<Longrightarrow> prefix (js ''*::'') q \<Longrightarrow> drop 3 p = drop 3 q \<Longrightarrow> p = q"
  by (auto simp: prefix_def js_star)

lemma block_caches_ok_removeBlock:
  assumes "block_caches_ok b" and "removeBlock b p = Inr b'"
  shows "block_caches_ok b' \<and> p \<notin> fst ` set (blocked_patterns b')"
proof -
  let ?t = "filter (\<lambda>r. fst r \<noteq> p) (blocked_patterns b)"
  let ?b1 = "b\<lparr> blocked_patterns := ?t \<rparr>"
  have b': "b' = uncacheBlockPattern ?b1 p"
    using assms(2) by (simp add: removeBlock_def split: if_splits)
  have keys: "fst ` set ?t = fst ` set (blocked_patterns b) - {p}"
    by auto
  have d: "distinct (map fst ?t)"
    using assms(1) by (simp add: block_caches_ok_def distinct_map_filter)
  show ?thesis
  proof (cases "prefix (js ''*::'') p")
    case True
    have "drop 3 ` {q \<in> fst ` set (blocked_patterns b). prefix (js ''*::'') q} - {drop 3 p}
        = drop 3 ` {q \<in> fst ` set (blocked_patterns b) - {p}. prefix (js ''*::'') q}"
      using True by (auto dest: drop3_star_inj)
    then show ?thesis
      using assms(1) d True unfolding b' block_caches_ok_def uncacheBlockPattern_def
      by (simp add: keys del: set_filter set_map image_set) auto
  next
    case False
    then show ?thesis
      using assms(1) d unfolding b' block_caches_ok_def uncacheBlockPattern_def
      by (simp add: keys del: set_filter set_map image_set) auto
  qed
qed

lemma cacheBlockPattern_fields:
  "blockedExact (cacheBlockPattern b p)
     = (if prefix (js ''*::'') p then blockedExact b else insert p (blockedExact b))"
  "blockedDomains (cacheBlockPattern b p)
     = (if prefix (js ''*::'') p then insert (drop 3 p) (blockedDomains b) else blockedDomains b)"
  "blocked_patterns (cacheBlockPattern b p) = blocked_patterns b"
  by (simp_all add: cacheBlockPattern_def)

lemma fold_cache_patterns:
  "blockedExact (fold (\<lambda>row acc. cacheBlockPattern acc (fst row)) rows b)
     = blockedExact b \<union> {q \<in> fst ` set rows. \<not> prefix (js ''*::'') q}
   \<and> blockedDomains (fold (\<lambda>row acc. cacheBlockPattern acc (fst row)) rows b)
     = blockedDomains b \<union> drop 3 ` {q \<in> fst ` set rows. prefix (js ''*::'') q}
   \<and> blocked_patterns (fold (\<lambda>row acc. cacheBlockPattern acc (fst row)) rows b)
     = blocked_patterns b"
proof (induction rows arbitrary: b)
  case Nil
  show ?case by simp
next
  case (Cons row rows)
  let ?f = "\<lambda>row acc. cacheBlockPattern acc (fst row)"
  have step: "fold ?f (row # rows) b = fold ?f rows (cacheBlockPattern b (fst row))"
    by simp
  show ?case
    unfolding step using Cons.IH[of "cacheBlockPattern b (fst row)"]
    by (auto simp: cacheBlockPattern_fields)
qed

lemma block_caches_ok_load_caches:
  assumes "distinct (map fst (blocked_patterns b))"
  shows "block_caches_ok (load_caches b)"
  using assms fold_cache_patterns[of "blocked_patterns b"
      "b\<lparr> db_open := True, knownAddresses := dom (contacts b),
            blockedExact := {}, blockedDomains := {} \<rparr>"]
  by (simp add: block_caches_ok_def load_caches_def)

lemma block_caches_ok_same:
  "block_caches_ok b \<Longrightarrow> same_block_caches b b' \<Longrightarrow> blocked_patterns b' = blocked_patterns b
   \<Longrightarrow> block_caches_ok b'"
  by (simp add: block_caches_ok_def same_block_caches_def)

lemma opened_book_caches: "opened_book b \<Longrightarrow> block_caches_ok b"
proof (induction rule: opened_book.induct)
  case (opened b)
  then show ?case by (rule block_caches_ok_load_caches)
next
  case (closed b)
  then show ?case by (simp add: block_caches_ok_def close_def)
next
  case (blocked b now pattern b')
  then show ?case using block_caches_ok_addBlock by blast
next
  case (unblocked b pattern b')
  then show ?case using block_caches_ok_removeBlock by blast
next
  case (contact_added b now address key options b')
  have "blocked_patterns b' = blocked_patterns b"
    using contact_added(2) by (auto simp: addContact_def Let_def split: if_splits)
  with contact_added show ?case
    by (intro block_caches_ok_same[of b b'] addContact_blocks)
next
  case (pinned b now address b')
  have "blocked_patterns b' = blocked_patterns b"
    using pinned(2) by (auto simp: setPinnedAt_def split: if_splits option.splits)
  with pinned show ?case
    by (intro block_caches_ok_same[of b b'] setPinnedAt_blocks)
next
  case (pending_added b now address crd b')
  have "blocked_patterns b' = blocked_patterns b"
    using pending_added(2) by (auto simp: addPending_def split: if_splits)
  with pending_added show ?case
    by (intro block_caches_ok_same[of b b'] addPending_blocks)
next
  case (pending_removed b address)
  then show ?case by (simp add: removePending_def block_caches_ok_def)
qed

lemma test_book_loaded: "load_caches (test_book state) = test_book state"
  by (simp add: load_caches_def test_book_def)

lemma blocking_book_added:
  "addBlock (test_book (js ''trusted'')) 3 (js ''*::x.y'') = Inr blocking_book"
  by (simp add: blocking_book_def addBlock_def test_book_def)

lemma blocking_book_eq:
  "blocking_book = (test_book (js ''trusted''))
     \<lparr> blocked_patterns := [(js ''*::x.y'', 3)], blockedDomains := {js ''x.y''} \<rparr>"
  by (simp add: blocking_book_def addBlock_def cacheBlockPattern_def test_book_def js_def)

lemma blocking_book_opened: "opened_book blocking_book"
proof -
  have "opened_book (load_caches (test_book (js ''trusted'')))"
    by (rule opened_book.opened) (simp add: test_book_def)
  then have "opened_book (test_book (js ''trusted''))" by (simp add: test_book_loaded)
  then show ?thesis using blocking_book_added by (rule opened_book.blocked)
qed

lemma test_book_opened: "opened_book (test_book state)"
proof -
  have "opened_book (load_caches (test_book state))"
    by (rule opened_book.opened) (simp add: test_book_def)
  then show ?thesis by (simp add: test_book_loaded)
qed

text \<open>
  C6. Let the contact book be one that the code can reach from \<^verbatim>\<open>open\<close>, and let
  the address be \<open>agent::domain\<close> with no colon inside the agent or the domain. Then
  \<^verbatim>\<open>isBlocked\<close> is true for the address exactly when the table of blocked patterns
  holds the exact address or the wildcard \<^verbatim>\<open>*::domain\<close>; for an address without
  \<^verbatim>\<open>::\<close> only the exact pattern counts. If the table holds one of the two patterns,
  \<^verbatim>\<open>_processInbound\<close> drops an inbound envelope from the address after two calls,
  the parse and the block check, so that neither the key lookup nor the resolver, the
  signature verification, the handshake manager or the decryption is reached; and no
  message that \<^verbatim>\<open>inbox\<close> returns has the address as its sender. In every run of
  \<^verbatim>\<open>_processInbound\<close>, for whatever sender, a call of \<^verbatim>\<open>verifyEnvelope\<close>, of
  \<^verbatim>\<open>decryptPayload\<close> or of the handshake manager is preceded by the parse and by a
  block check that found the sender not blocked.
\<close>

theorem blocked_sender_never_returned:
  assumes "opened_book (contactBook a)"
    and "0x3A \<notin> set agent'" and "0x3A \<notin> set domain'"
  shows "(isBlocked (contactBook a) (agent' @ js ''::'' @ domain')
          \<longleftrightarrow> agent' @ js ''::'' @ domain' \<in> fst ` set (blocked_patterns (contactBook a))
              \<or> js ''*::'' @ domain' \<in> fst ` set (blocked_patterns (contactBook a)))
     \<and> (\<forall>x. \<not> includes_colons x \<longrightarrow>
            (isBlocked (contactBook a) x \<longleftrightarrow> x \<in> fst ` set (blocked_patterns (contactBook a))))
     \<and> (agent' @ js ''::'' @ domain' \<in> fst ` set (blocked_patterns (contactBook a))
          \<or> js ''*::'' @ domain' \<in> fst ` set (blocked_patterns (contactBook a))
        \<longrightarrow> (\<forall>e. fromWireDict raw = Inr e \<and> fromAddress e = agent' @ js ''::'' @ domain'
               \<longrightarrow> processInbound_traced R a now raw
                     = ([Call_fromWireDict, Call_isBlocked (agent' @ js ''::'' @ domain')],
                        Inr (a, None))
                   \<and> processInbound R a now raw = Inr (a, None))
          \<and> (\<forall>a' msgs. inbox R a now raws = Inr (a', msgs)
               \<longrightarrow> agent' @ js ''::'' @ domain' \<notin> rm_fromAddress ` set msgs))
     \<and> (\<forall>raw'. Call_verifyEnvelope \<in> set (fst (processInbound_traced R a now raw'))
               \<or> Call_decryptPayload \<in> set (fst (processInbound_traced R a now raw'))
               \<or> Call_handleInbound \<in> set (fst (processInbound_traced R a now raw'))
            \<longrightarrow> (\<exists>e rest. fromWireDict raw' = Inr e
                   \<and> fst (processInbound_traced R a now raw')
                        = Call_fromWireDict # Call_isBlocked (fromAddress e) # rest
                   \<and> \<not> isBlocked (contactBook a) (fromAddress e)))"
proof -
  let ?addr = "agent' @ js ''::'' @ domain'"
  let ?stored = "?addr \<in> fst ` set (blocked_patterns (contactBook a))
          \<or> js ''*::'' @ domain' \<in> fst ` set (blocked_patterns (contactBook a))"
  have ok: "block_caches_ok (contactBook a)"
    using assms(1) by (rule opened_book_caches)
  have iff: "isBlocked (contactBook a) ?addr \<longleftrightarrow> ?stored"
    using ok assms(2,3) by (rule isBlocked_stored)
  have plain: "isBlocked (contactBook a) x \<longleftrightarrow> x \<in> fst ` set (blocked_patterns (contactBook a))"
    if "\<not> includes_colons x" for x
    using ok that by (rule isBlocked_plain)
  have drop: "processInbound_traced R a now raw
                  = ([Call_fromWireDict, Call_isBlocked ?addr], Inr (a, None))
                \<and> processInbound R a now raw = Inr (a, None)"
    if "?stored" "fromWireDict raw = Inr e" "fromAddress e = ?addr" for e
    using that iff processInbound_traced_blocked[of raw e a R now]
    by (simp add: processInbound_def)
  have never: "?addr \<notin> rm_fromAddress ` set msgs"
    if "?stored" "inbox R a now raws = Inr (a', msgs)" for a' msgs
  proof
    assume "?addr \<in> rm_fromAddress ` set msgs"
    then obtain m where m: "m \<in> set msgs" "rm_fromAddress m = ?addr"
      by auto
    from inbox_messages[OF that(2) m(1)] m(2) that(1) iff show False
      by (auto simp: came_from_def)
  qed
  have order: "\<exists>e rest. fromWireDict raw' = Inr e
                   \<and> fst (processInbound_traced R a now raw')
                        = Call_fromWireDict # Call_isBlocked (fromAddress e) # rest
                   \<and> \<not> isBlocked (contactBook a) (fromAddress e)"
    if "Call_verifyEnvelope \<in> set (fst (processInbound_traced R a now raw'))
               \<or> Call_decryptPayload \<in> set (fst (processInbound_traced R a now raw'))
               \<or> Call_handleInbound \<in> set (fst (processInbound_traced R a now raw'))" for raw'
    using that by (rule crypto_after_block_check)
  show ?thesis
  proof (intro conjI allI impI)
    show "isBlocked (contactBook a) ?addr \<longleftrightarrow> ?stored" by (rule iff)
  next
    fix x assume "\<not> includes_colons x"
    then show "isBlocked (contactBook a) x \<longleftrightarrow> x \<in> fst ` set (blocked_patterns (contactBook a))"
      by (rule plain)
  next
    fix e assume "?stored" "fromWireDict raw = Inr e \<and> fromAddress e = ?addr"
    then show "processInbound_traced R a now raw
                  = ([Call_fromWireDict, Call_isBlocked ?addr], Inr (a, None))"
      using drop by blast
  next
    fix e assume "?stored" "fromWireDict raw = Inr e \<and> fromAddress e = ?addr"
    then show "processInbound R a now raw = Inr (a, None)"
      using drop by blast
  next
    fix a' msgs assume "?stored" "inbox R a now raws = Inr (a', msgs)"
    then show "?addr \<notin> rm_fromAddress ` set msgs" by (rule never)
  next
    fix raw'
    assume "Call_verifyEnvelope \<in> set (fst (processInbound_traced R a now raw'))
               \<or> Call_decryptPayload \<in> set (fst (processInbound_traced R a now raw'))
               \<or> Call_handleInbound \<in> set (fst (processInbound_traced R a now raw'))"
    then show "\<exists>e rest. fromWireDict raw' = Inr e
                   \<and> fst (processInbound_traced R a now raw')
                        = Call_fromWireDict # Call_isBlocked (fromAddress e) # rest
                   \<and> \<not> isBlocked (contactBook a) (fromAddress e)"
      by (rule order)
  qed
qed

theorem blocked_sender_never_returned_witness:
  "load_caches (test_book (js ''trusted'')) = test_book (js ''trusted'')
   \<and> addBlock (test_book (js ''trusted'')) 3 (js ''*::x.y'') = Inr blocking_book
   \<and> opened_book (contactBook blocking_alice)
   \<and> 0x3A \<notin> set (js ''bob'') \<and> 0x3A \<notin> set (js ''x.y'')
   \<and> js ''*::'' @ js ''x.y'' \<in> fst ` set (blocked_patterns (contactBook blocking_alice))
   \<and> isBlocked (contactBook blocking_alice) (js ''bob::x.y'')
   \<and> \<not> includes_colons (js ''x.y'')
   \<and> \<not> isBlocked (contactBook blocking_alice) (js ''x.y'')
   \<and> fromWireDict (toWireDict (bob_envelope MESSAGE)) = Inr (bob_envelope MESSAGE)
   \<and> fromAddress (bob_envelope MESSAGE) = js ''bob::x.y''
   \<and> processInbound_traced test_runtime blocking_alice 10 (toWireDict (bob_envelope MESSAGE))
       = ([Call_fromWireDict, Call_isBlocked (js ''bob::x.y'')], Inr (blocking_alice, None))
   \<and> inbox test_runtime blocking_alice 10 [toWireDict (bob_envelope MESSAGE)]
       = Inr (blocking_alice, [])
   \<and> opened_book (contactBook (alice (js ''auto-accept'') (js ''trusted'')))
   \<and> \<not> isBlocked (contactBook (alice (js ''auto-accept'') (js ''trusted''))) (js ''bob::x.y'')
   \<and> processInbound_traced test_runtime (alice (js ''auto-accept'') (js ''trusted'')) 10
        (toWireDict (bob_envelope MESSAGE))
       = ([Call_fromWireDict, Call_isBlocked (js ''bob::x.y''),
           Call_getPublicKey (js ''bob::x.y''),
           Call_deserializeVerifyKey (serializeVerifyKey test_runtime bob_vk),
           Call_verifyEnvelope, Call_decryptPayload],
          Inr (alice (js ''auto-accept'') (js ''trusted''), Some (bob_message MESSAGE)))"
proof -
  let ?a = blocking_alice
  let ?u = "alice (js ''auto-accept'') (js ''trusted'')"
  let ?w = "toWireDict (bob_envelope MESSAGE)"
  have book: "contactBook ?a = blocking_book" by (simp add: blocking_alice_def)
  have ok: "opened_book (contactBook ?a)" by (simp add: book blocking_book_opened)
  have oku: "opened_book (contactBook ?u)" by (simp add: alice_def test_book_opened)
  have c1: "0x3A \<notin> set (js ''bob'')" and c2: "0x3A \<notin> set (js ''x.y'')"
    by (simp_all add: js_def)
  have pat: "js ''*::'' @ js ''x.y'' \<in> fst ` set (blocked_patterns (contactBook ?a))"
    by (simp add: book blocking_book_eq js_def)
  have addr: "js ''bob'' @ js ''::'' @ js ''x.y'' = js ''bob::x.y''" by (simp add: js_def)
  note inst = blocked_sender_never_returned[OF ok c1 c2, where raw = ?w and R = test_runtime
      and now = 10 and raws = "[?w]", unfolded addr]
  from inst pat have b: "isBlocked (contactBook ?a) (js ''bob::x.y'')" by blast
  have nc: "\<not> includes_colons (js ''x.y'')" by (simp add: js_def)
  have "js ''x.y'' \<notin> fst ` set (blocked_patterns (contactBook ?a))"
    by (simp add: book blocking_book_eq js_def)
  with inst nc have nd: "\<not> isBlocked (contactBook ?a) (js ''x.y'')" by blast
  from inst pat bob_roundtrip[of MESSAGE] bob_fields(2)[of MESSAGE]
  have tr: "processInbound_traced test_runtime ?a 10 ?w
       = ([Call_fromWireDict, Call_isBlocked (js ''bob::x.y'')], Inr (?a, None))"
    and dr: "processInbound test_runtime ?a 10 ?w = Inr (?a, None)"
    by blast+
  have sweep: "sweepExpiredHandshakes test_runtime ?a 10 = ?a"
    by (simp add: sweepExpiredHandshakes_def getExpiredPending_def blocking_alice_def
        blocking_book_eq test_book_def)
  have ib: "inbox test_runtime ?a 10 [?w] = Inr (?a, [])"
    by (simp add: inbox_def sweep receive_one_def dr)
  have un: "processInbound_traced test_runtime ?u 10 ?w
       = ([Call_fromWireDict, Call_isBlocked (js ''bob::x.y''),
           Call_getPublicKey (js ''bob::x.y''),
           Call_deserializeVerifyKey (serializeVerifyKey test_runtime bob_vk),
           Call_verifyEnvelope, Call_decryptPayload],
          Inr (?u, Some (bob_message MESSAGE)))"
    by (rule alice_traced_message)
  then have "Call_verifyEnvelope \<in> set (fst (processInbound_traced test_runtime ?u 10 ?w))"
    by simp
  with blocked_sender_never_returned[OF oku c1 c2, where raw = ?w and R = test_runtime
      and now = 10 and raws = "[?w]"]
  obtain e where "fromWireDict ?w = Inr e" "\<not> isBlocked (contactBook ?u) (fromAddress e)"
    by blast
  then have nb: "\<not> isBlocked (contactBook ?u) (js ''bob::x.y'')"
    using bob_roundtrip[of MESSAGE] bob_fields(2)[of MESSAGE] by simp
  show ?thesis
    using test_book_loaded blocking_book_added ok oku c1 c2 pat b nc nd bob_roundtrip[of MESSAGE]
      bob_fields(2)[of MESSAGE] tr ib un nb
    by simp
qed

subsection \<open>What the inbox returns\<close>

lemma alice_no_sweep: "sweepExpiredHandshakes test_runtime (alice policy state) now = alice policy state"
  by (simp add: sweepExpiredHandshakes_def getExpiredPending_def alice_def test_book_def)

lemma alice_inbox_protocol:
  assumes "length ty \<le> 64" and "ty \<noteq> HANDSHAKE_REQUEST" "ty \<noteq> HANDSHAKE_ACCEPT"
    "ty \<noteq> HANDSHAKE_DENY"
    and "prefix (js ''receipt.'') ty \<or> prefix (js ''handshake.'') ty \<or> prefix (js ''session.'') ty"
    and "\<not> unapproved_sender (alice policy state) (js ''bob::x.y'')"
  shows "inbox test_runtime (alice policy state) now [toWireDict (bob_envelope ty)]
           = Inr (alice policy state, [bob_message ty])"
proof -
  have "sendReadReceipt test_runtime (alice policy state) (bob_message ty) = alice policy state"
    using assms(5) by (intro sendReadReceipt_protocol) (simp add: bob_message_def)
  then show ?thesis
    using alice_delivers[OF assms(1-4), of policy state now] assms(6)
    by (simp add: inbox_def alice_no_sweep receive_one_def)
qed

lemma session_end_facts:
  "length SESSION_END \<le> 64" "SESSION_END \<noteq> HANDSHAKE_REQUEST"
  "SESSION_END \<noteq> HANDSHAKE_ACCEPT" "SESSION_END \<noteq> HANDSHAKE_DENY"
  "prefix (js ''session.'') SESSION_END"
  by (simp_all add: SESSION_END_def HANDSHAKE_REQUEST_def HANDSHAKE_ACCEPT_def
      HANDSHAKE_DENY_def js_def)

lemma inbox_loop_handshake:
  assumes "processInbound R a now raw = handleInbound R a now e vk"
  shows "inbox_loop R a now (raw # raws) acc
           = (case handleInbound R a now e vk of
                Inl x \<Rightarrow> Inl x
              | Inr (a', _) \<Rightarrow> inbox_loop R a' now raws acc)"
proof (cases "handleInbound R a now e vk")
  case (Inl x)
  then show ?thesis using assms by (simp add: receive_one_def)
next
  case (Inr y)
  obtain a' r where y: "y = (a', r)" by (cases y)
  then have "r = None" using Inr handleInbound_result by blast
  then show ?thesis using assms Inr y by (simp add: receive_one_def)
qed

lemma accept_type:
  "length HANDSHAKE_ACCEPT \<le> 64" "HANDSHAKE_ACCEPT \<noteq> HANDSHAKE_REQUEST"
  by (simp_all add: HANDSHAKE_REQUEST_def HANDSHAKE_ACCEPT_def js_def)

lemma alice_handleAccept:
  "handleInbound test_runtime (alice policy state) now (bob_envelope HANDSHAKE_ACCEPT) bob_vk
     = Inr (alice_pinned policy state now, None)"
  using accept_type(2)
  by (simp add: handleInbound_def handleAccept_def bob_fields with_book_def addContact_def
      setPinnedAt_def alice_def alice_pinned_def test_book_def bob_row_def no_options_def
      coalesce_def Let_def)

lemma request_length: "length HANDSHAKE_REQUEST \<le> 64"
  by (simp add: HANDSHAKE_REQUEST_def length_js)

lemma bob_request_opens:
  "decryptPayloadAnonymous test_runtime (payload (bob_envelope HANDSHAKE_REQUEST)) alice_sk
     = Inr hello"
proof -
  have "length (box_random (test_entropy 7)) = crypto_box_NONCEBYTES"
    by (simp add: test_entropy_def crypto_box_NONCEBYTES_def)
  from created_envelope_decrypts[where sender_vk = bob_vk and recipient_sk = alice_sk,
      OF test_codec_ok test_box_pair test_seal_pair this bob_created[OF request_length]]
  show ?thesis by (simp add: bob_fields)
qed

lemma alice_handleRequest:
  "handleInbound test_runtime (alice policy state) now (bob_envelope HANDSHAKE_REQUEST) bob_vk
     = Inl (JsError, alice policy state)"
proof -
  have sk: "signingKey (alice policy state) = alice_sk" by (simp add: alice_def)
  have "parse_card_dict test_runtime (TextDecoder_decode test_runtime hello) = Inl JsError"
    by (simp add: parse_card_dict_def test_runtime_def)
  then show ?thesis
    by (simp add: handleInbound_def handleRequest_def bob_fields sk bob_request_opens)
qed

text \<open>
  C5. The claim: every inbound envelope of a handshake, receipt or session type is routed
  internally and never returned, so that only \<^verbatim>\<open>message\<close> envelopes appear in the list
  returned by \<^verbatim>\<open>inbox\<close>. In the code only the three handshake types are routed to the
  handshake manager; a receipt or session envelope takes the path of a message. Under
  \<^verbatim>\<open>auto-accept\<close>, Bob's \<^verbatim>\<open>receipt.read\<close> envelope is returned by Alice's inbox.
\<close>

theorem receipt_envelope_returned_by_inbox:
  "RECEIPT_READ \<in> set message_types \<and> RECEIPT_READ \<noteq> MESSAGE
   \<and> msgType (bob_envelope RECEIPT_READ) = RECEIPT_READ
   \<and> rm_type (bob_message RECEIPT_READ) = RECEIPT_READ
   \<and> inbox test_runtime (alice (js ''auto-accept'') (js ''pinned'')) 10
        [toWireDict (bob_envelope RECEIPT_READ)]
       = Inr (alice (js ''auto-accept'') (js ''pinned''), [bob_message RECEIPT_READ])"
proof -
  have t: "RECEIPT_READ \<noteq> HANDSHAKE_REQUEST" "RECEIPT_READ \<noteq> HANDSHAKE_ACCEPT"
    "RECEIPT_READ \<noteq> HANDSHAKE_DENY" "RECEIPT_READ \<noteq> MESSAGE"
    "prefix (js ''receipt.'') RECEIPT_READ"
    by (simp_all add: RECEIPT_READ_def HANDSHAKE_REQUEST_def HANDSHAKE_ACCEPT_def
        HANDSHAKE_DENY_def MESSAGE_def js_def)
  have "RECEIPT_READ \<in> set message_types" by (simp add: message_types_def)
  then show ?thesis
    using alice_inbox_protocol[OF type_lengths(2) t(1,2,3) _ auto_accept_approves, of "js ''pinned''" 10]
      t(4,5)
    by (simp add: bob_fields bob_message_def)
qed

text \<open>
  C5, as the code has it. An inbound envelope whose type is \<^verbatim>\<open>handshake.request\<close>,
  \<^verbatim>\<open>handshake.accept\<close> or \<^verbatim>\<open>handshake.deny\<close> yields no message. If its sender is
  not blocked, a key is found for the sender and the signature verifies under it, then
  \<^verbatim>\<open>_processInbound\<close> hands the envelope to \<^verbatim>\<open>HandshakeManager.handleInbound\<close>
  and its outcome is the outcome of that call; the loop of \<^verbatim>\<open>inbox\<close> adds nothing
  to its result and goes on with the state the handshake manager left, or ends with its
  exception. And every message in the list returned by \<^verbatim>\<open>inbox\<close> comes from a
  received envelope of a type other than these three, with the type, the identifier and
  the sender of that envelope.
\<close>

theorem inbox_hides_only_handshakes:
  "(\<forall>e a1 r. fromWireDict raw = Inr e
        \<longrightarrow> (msgType e = HANDSHAKE_REQUEST \<or> msgType e = HANDSHAKE_ACCEPT
             \<or> msgType e = HANDSHAKE_DENY)
        \<longrightarrow> processInbound R a now raw = Inr (a1, r) \<longrightarrow> r = None)
   \<and> (\<forall>e pk. fromWireDict raw = Inr e
        \<longrightarrow> (msgType e = HANDSHAKE_REQUEST \<or> msgType e = HANDSHAKE_ACCEPT
             \<or> msgType e = HANDSHAKE_DENY)
        \<longrightarrow> \<not> isBlocked (contactBook a) (fromAddress e)
        \<longrightarrow> sender_key R a (fromAddress e) = Some pk
        \<longrightarrow> verifyEnvelope R e (deserializeVerifyKey R pk) = Inr ()
        \<longrightarrow> processInbound R a now raw = handleInbound R a now e (deserializeVerifyKey R pk)
            \<and> Call_handleInbound \<in> set (fst (processInbound_traced R a now raw))
            \<and> inbox_loop R a now (raw # raws) acc
                 = (case handleInbound R a now e (deserializeVerifyKey R pk) of
                      Inl x \<Rightarrow> Inl x
                    | Inr (a', _) \<Rightarrow> inbox_loop R a' now raws acc))
   \<and> (\<forall>a' msgs m. inbox R a now raws = Inr (a', msgs) \<longrightarrow> m \<in> set msgs
        \<longrightarrow> rm_type m \<noteq> HANDSHAKE_REQUEST \<and> rm_type m \<noteq> HANDSHAKE_ACCEPT
            \<and> rm_type m \<noteq> HANDSHAKE_DENY
            \<and> (\<exists>raw \<in> set raws. \<exists>e. fromWireDict raw = Inr e \<and> msgType e = rm_type m
                   \<and> messageId e = rm_messageId m \<and> fromAddress e = rm_fromAddress m))"
proof (intro conjI allI impI)
  fix e a1 r
  assume e: "fromWireDict raw = Inr e"
    and h: "msgType e = HANDSHAKE_REQUEST \<or> msgType e = HANDSHAKE_ACCEPT
             \<or> msgType e = HANDSHAKE_DENY"
    and p: "processInbound R a now raw = Inr (a1, r)"
  show "r = None"
  proof (cases r)
    case None
    then show ?thesis .
  next
    case (Some m)
    with p processInbound_SomeD[of R a now raw a1 m] e h show ?thesis by auto
  qed
next
  fix e pk
  assume e: "fromWireDict raw = Inr e"
    and h: "msgType e = HANDSHAKE_REQUEST \<or> msgType e = HANDSHAKE_ACCEPT
             \<or> msgType e = HANDSHAKE_DENY"
    and nb: "\<not> isBlocked (contactBook a) (fromAddress e)"
    and pk: "sender_key R a (fromAddress e) = Some pk"
    and v: "verifyEnvelope R e (deserializeVerifyKey R pk) = Inr ()"
  show routed: "processInbound R a now raw = handleInbound R a now e (deserializeVerifyKey R pk)"
    using processInbound_verified[OF e nb pk v] h by (simp add: process_verified_eq)
  show "Call_handleInbound \<in> set (fst (processInbound_traced R a now raw))"
    using e h nb pk v
    by (auto simp: processInbound_traced_def verify_traced_def process_verified_traced_def
        sender_key_def called_simps Let_def split: option.splits)
  show "inbox_loop R a now (raw # raws) acc
          = (case handleInbound R a now e (deserializeVerifyKey R pk) of
               Inl x \<Rightarrow> Inl x
             | Inr (a', _) \<Rightarrow> inbox_loop R a' now raws acc)"
    using routed by (rule inbox_loop_handshake)
next
  fix a' msgs m
  assume i: "inbox R a now raws = Inr (a', msgs)" and m: "m \<in> set msgs"
  obtain raw e where re: "raw \<in> set raws" "fromWireDict raw = Inr e"
      "msgType e \<noteq> HANDSHAKE_REQUEST" "msgType e \<noteq> HANDSHAKE_ACCEPT"
      "msgType e \<noteq> HANDSHAKE_DENY" "rm_type m = msgType e"
      "rm_fromAddress m = fromAddress e" "rm_messageId m = messageId e"
    using inbox_messages[OF i m] unfolding came_from_def by blast
  then show "rm_type m \<noteq> HANDSHAKE_REQUEST" "rm_type m \<noteq> HANDSHAKE_ACCEPT"
    "rm_type m \<noteq> HANDSHAKE_DENY" by simp_all
  from re show "\<exists>raw \<in> set raws. \<exists>e. fromWireDict raw = Inr e \<and> msgType e = rm_type m
                   \<and> messageId e = rm_messageId m \<and> fromAddress e = rm_fromAddress m"
    by (intro bexI[of _ raw] exI[of _ e]) simp_all
qed

theorem inbox_hides_only_handshakes_witness:
  "fromWireDict (toWireDict (bob_envelope HANDSHAKE_ACCEPT)) = Inr (bob_envelope HANDSHAKE_ACCEPT)
   \<and> msgType (bob_envelope HANDSHAKE_ACCEPT) = HANDSHAKE_ACCEPT
   \<and> \<not> isBlocked (contactBook (alice (js ''auto-accept'') (js ''trusted'')))
          (fromAddress (bob_envelope HANDSHAKE_ACCEPT))
   \<and> sender_key test_runtime (alice (js ''auto-accept'') (js ''trusted''))
        (fromAddress (bob_envelope HANDSHAKE_ACCEPT)) = Some (serializeVerifyKey test_runtime bob_vk)
   \<and> verifyEnvelope test_runtime (bob_envelope HANDSHAKE_ACCEPT)
        (deserializeVerifyKey test_runtime (serializeVerifyKey test_runtime bob_vk)) = Inr ()
   \<and> processInbound test_runtime (alice (js ''auto-accept'') (js ''trusted'')) 10
        (toWireDict (bob_envelope HANDSHAKE_ACCEPT))
       = handleInbound test_runtime (alice (js ''auto-accept'') (js ''trusted'')) 10
           (bob_envelope HANDSHAKE_ACCEPT) bob_vk
   \<and> handleInbound test_runtime (alice (js ''auto-accept'') (js ''trusted'')) 10
           (bob_envelope HANDSHAKE_ACCEPT) bob_vk
       = Inr (alice_pinned (js ''auto-accept'') (js ''trusted'') 10, None)
   \<and> getTrustState (contactBook (alice (js ''auto-accept'') (js ''trusted''))) (js ''bob::x.y'')
       = Some (js ''trusted'')
   \<and> getTrustState (contactBook (alice_pinned (js ''auto-accept'') (js ''trusted'') 10))
        (js ''bob::x.y'') = Some (js ''pinned'')
   \<and> Call_handleInbound \<in> set (fst (processInbound_traced test_runtime
        (alice (js ''auto-accept'') (js ''trusted'')) 10
        (toWireDict (bob_envelope HANDSHAKE_ACCEPT))))
   \<and> inbox test_runtime (alice (js ''auto-accept'') (js ''trusted'')) 10
        [toWireDict (bob_envelope HANDSHAKE_ACCEPT)]
       = Inr (alice_pinned (js ''auto-accept'') (js ''trusted'') 10, [])
   \<and> handleInbound test_runtime (alice (js ''auto-accept'') (js ''trusted'')) 10
           (bob_envelope HANDSHAKE_REQUEST) bob_vk
       = Inl (JsError, alice (js ''auto-accept'') (js ''trusted''))
   \<and> inbox test_runtime (alice (js ''auto-accept'') (js ''trusted'')) 10
        [toWireDict (bob_envelope HANDSHAKE_REQUEST)]
       = Inl (JsError, alice (js ''auto-accept'') (js ''trusted''))
   \<and> inbox test_runtime (alice (js ''auto-accept'') (js ''pinned'')) 10
        [toWireDict (bob_envelope SESSION_END)]
       = Inr (alice (js ''auto-accept'') (js ''pinned''), [bob_message SESSION_END])
   \<and> bob_message SESSION_END \<in> set [bob_message SESSION_END]
   \<and> rm_type (bob_message SESSION_END) \<noteq> HANDSHAKE_REQUEST
   \<and> rm_type (bob_message SESSION_END) \<noteq> HANDSHAKE_ACCEPT
   \<and> rm_type (bob_message SESSION_END) \<noteq> HANDSHAKE_DENY"
proof -
  let ?a = "alice (js ''auto-accept'') (js ''trusted'')"
  let ?p = "alice (js ''auto-accept'') (js ''pinned'')"
  let ?e = "bob_envelope HANDSHAKE_ACCEPT"
  have h1: "fromWireDict (toWireDict ?e) = Inr ?e" by (rule bob_roundtrip)
  have h2: "msgType ?e = HANDSHAKE_REQUEST \<or> msgType ?e = HANDSHAKE_ACCEPT
      \<or> msgType ?e = HANDSHAKE_DENY"
    by (simp add: bob_fields)
  have h3: "\<not> isBlocked (contactBook ?a) (fromAddress ?e)" by (rule alice_not_blocked)
  have h4: "sender_key test_runtime ?a (fromAddress ?e)
      = Some (serializeVerifyKey test_runtime bob_vk)"
    by (simp add: bob_fields alice_knows_bob)
  have h5: "verifyEnvelope test_runtime ?e
      (deserializeVerifyKey test_runtime (serializeVerifyKey test_runtime bob_vk)) = Inr ()"
    by (simp add: alice_bob_key bob_verifies[OF accept_type(1)])
  note routed = inbox_hides_only_handshakes[where raw = "toWireDict ?e" and R = test_runtime
      and a = ?a and now = 10 and raws = "[]" and acc = "[]",
      THEN conjunct2, THEN conjunct1, rule_format, OF h1 h2 h3 h4 h5, unfolded alice_bob_key]
  have acc: "handleInbound test_runtime ?a 10 ?e bob_vk
      = Inr (alice_pinned (js ''auto-accept'') (js ''trusted'') 10, None)"
    by (rule alice_handleAccept)
  have ib: "inbox test_runtime ?a 10 [toWireDict ?e]
      = Inr (alice_pinned (js ''auto-accept'') (js ''trusted'') 10, [])"
    using routed acc by (simp add: inbox_def alice_no_sweep)
  let ?q = "bob_envelope HANDSHAKE_REQUEST"
  have q1: "fromWireDict (toWireDict ?q) = Inr ?q" by (rule bob_roundtrip)
  have q2: "msgType ?q = HANDSHAKE_REQUEST \<or> msgType ?q = HANDSHAKE_ACCEPT
      \<or> msgType ?q = HANDSHAKE_DENY"
    by (simp add: bob_fields)
  have q3: "\<not> isBlocked (contactBook ?a) (fromAddress ?q)" by (rule alice_not_blocked)
  have q4: "sender_key test_runtime ?a (fromAddress ?q)
      = Some (serializeVerifyKey test_runtime bob_vk)"
    by (simp add: bob_fields alice_knows_bob)
  have q5: "verifyEnvelope test_runtime ?q
      (deserializeVerifyKey test_runtime (serializeVerifyKey test_runtime bob_vk)) = Inr ()"
    by (simp add: alice_bob_key bob_verifies[OF request_length])
  note routed_request = inbox_hides_only_handshakes[where raw = "toWireDict ?q"
      and R = test_runtime and a = ?a and now = 10 and raws = "[]" and acc = "[]",
      THEN conjunct2, THEN conjunct1, rule_format, OF q1 q2 q3 q4 q5, unfolded alice_bob_key]
  have req: "handleInbound test_runtime ?a 10 ?q bob_vk = Inl (JsError, ?a)"
    by (rule alice_handleRequest)
  have ibq: "inbox test_runtime ?a 10 [toWireDict ?q] = Inl (JsError, ?a)"
    using routed_request req by (simp add: inbox_def alice_no_sweep)
  have t1: "getTrustState (contactBook ?a) (js ''bob::x.y'') = Some (js ''trusted'')"
    by (rule alice_trust)
  have t2: "getTrustState (contactBook (alice_pinned (js ''auto-accept'') (js ''trusted'') 10))
        (js ''bob::x.y'') = Some (js ''pinned'')"
    by (simp add: getTrustState_def alice_pinned_def test_book_def bob_row_def)
  have i: "inbox test_runtime ?p 10 [toWireDict (bob_envelope SESSION_END)]
       = Inr (?p, [bob_message SESSION_END])"
    using alice_inbox_protocol[OF session_end_facts(1-4) _ auto_accept_approves]
      session_end_facts(5) by simp
  have "rm_type (bob_message SESSION_END) \<noteq> HANDSHAKE_REQUEST
      \<and> rm_type (bob_message SESSION_END) \<noteq> HANDSHAKE_ACCEPT
      \<and> rm_type (bob_message SESSION_END) \<noteq> HANDSHAKE_DENY"
    using inbox_hides_only_handshakes[where raw = "toWireDict ?e" and R = test_runtime
        and a = ?p and now = 10 and raws = "[toWireDict (bob_envelope SESSION_END)]"
        and acc = "[]"] i
    by (simp del: bob_fields)
  then show ?thesis
    using h1 h3 h4 h5 routed acc ib req ibq t1 t2 i by (simp add: bob_fields)
qed

subsection \<open>Read receipts\<close>

lemma length_receipt_payload:
  "length (text_encode (json_stringify (JObj [(js ''message_id'', JStr s)]))) \<le> 3 * (68 + 6 * length s)"
proof -
  have "length (json_stringify (JObj (str_entries [(js ''message_id'', s)]))) \<le> 68 + 6 * length s"
    using length_json_stringify_strs[of "[(js ''message_id'', s)]"] by (simp add: length_js)
  then have "length (json_stringify (JObj [(js ''message_id'', JStr s)])) \<le> 68 + 6 * length s"
    by (simp add: str_entries_def)
  then show ?thesis by (rule order_trans[OF length_text_encode mult_le_mono2])
qed

lemma alice_sends_receipt:
  "sendReadReceipt test_runtime (alice policy state) (bob_message MESSAGE)
     = (alice policy state)\<lparr> draws := 1, sent := [toWireDict alice_receipt] \<rparr>"
proof -
  let ?a = "alice policy state"
  let ?pt = "text_encode (json_stringify (JObj [(js ''message_id'', JStr (js ''id-7''))]))"
  have np: "\<not> (prefix (js ''receipt.'') MESSAGE \<or> prefix (js ''handshake.'') MESSAGE
         \<or> prefix (js ''session.'') MESSAGE)"
    by (simp add: MESSAGE_def js_def)
  have key: "getPublicKey (contactBook ?a) (js ''bob::x.y'')
      = Some (serializeVerifyKey test_runtime bob_vk)"
    by (simp add: getPublicKey_def alice_def test_book_def bob_row_def)
  have len: "length ?pt \<le> 276"
    using length_receipt_payload[of "js ''id-7''"] by (simp add: length_js)
  have "createEnvelope test_runtime (test_entropy 0) (js ''alice::x.y'') (js ''bob::x.y'')
          RECEIPT_READ ?pt alice_sk vk no_envelope_options = Inr alice_receipt" for vk
    unfolding alice_receipt_def
  proof (rule test_createEnvelope[OF parse_test_addresses(2) parse_test_addresses(1)])
    show "length (uuid (test_entropy 0)) + length (js ''alice::x.y'') + length (js ''bob::x.y'')
          + length (iso_now (test_entropy 0)) + length RECEIPT_READ
          + length (nonce_bytes (test_entropy 0)) + length (box_random (test_entropy 0))
          + length ?pt + length alice_sk \<le> 1000"
      using len by (simp add: test_entropy_def length_js alice_sk_def RECEIPT_READ_def)
  qed
  then have "emit test_runtime ?a (js ''bob::x.y'') RECEIPT_READ ?pt vk
      = Inr (?a\<lparr> draws := 1, sent := [toWireDict alice_receipt] \<rparr>, ())" for vk
    by (simp add: emit_def transport_send_wire_def alice_def test_runtime_def Let_def)
  then show ?thesis
    using np key
    by (simp add: sendReadReceipt_def bob_message_def Let_def state_after_Inr)
qed

text \<open>
  C8. Processing one inbound wire dict (\<^verbatim>\<open>_processInbound\<close>, then
  \<^verbatim>\<open>_sendReadReceipt\<close> for a returned message): if its type begins with
  \<^verbatim>\<open>receipt.\<close>, \<^verbatim>\<open>handshake.\<close> or \<^verbatim>\<open>session.\<close>, no envelope of type
  \<^verbatim>\<open>receipt.read\<close> is handed to the transport, also when the processing ends in an
  exception; and whenever a \<^verbatim>\<open>receipt.read\<close> envelope is handed to the transport, a
  message was returned whose type has none of the three prefixes.
\<close>

theorem read_receipt_only_for_user_messages:
  "(\<forall>e. fromWireDict raw = Inr e \<longrightarrow>
        (prefix (js ''receipt.'') (msgType e) \<or> prefix (js ''handshake.'') (msgType e)
           \<or> prefix (js ''session.'') (msgType e)) \<longrightarrow>
        JStr RECEIPT_READ \<notin> wire_type ` set (newly_sent a (state_after (receive_one R a now raw))))
   \<and> (JStr RECEIPT_READ \<in> wire_type ` set (newly_sent a (state_after (receive_one R a now raw)))
        \<longrightarrow> (\<exists>a' m. receive_one R a now raw = Inr (a', Some m)
               \<and> \<not> prefix (js ''receipt.'') (rm_type m)
               \<and> \<not> prefix (js ''handshake.'') (rm_type m)
               \<and> \<not> prefix (js ''session.'') (rm_type m)))"
proof (cases rule: receive_one_cases[of R a now raw])
  case (error err a')
  then have "state_after (receive_one R a now raw) = state_after (processInbound R a now raw)"
    by (simp add: state_after_Inl)
  then show ?thesis using no_receipt_from_processInbound[of a R now raw] by simp
next
  case (dropped a')
  then have "state_after (receive_one R a now raw) = state_after (processInbound R a now raw)"
    by (simp add: state_after_Inr)
  then show ?thesis using no_receipt_from_processInbound[of a R now raw] by simp
next
  case (returned m)
  obtain e where e: "fromWireDict raw = Inr e" "rm_type m = msgType e"
    using processInbound_SomeD[OF returned(1)] by blast
  have after: "state_after (receive_one R a now raw) = sendReadReceipt R a m"
    using returned(2) by (simp add: state_after_Inr)
  show ?thesis
  proof (cases "prefix (js ''receipt.'') (rm_type m) \<or> prefix (js ''handshake.'') (rm_type m)
                  \<or> prefix (js ''session.'') (rm_type m)")
    case True
    then have "sendReadReceipt R a m = a" by (rule sendReadReceipt_protocol)
    then show ?thesis using after by (simp add: newly_sent_def)
  next
    case False
    then show ?thesis using e returned(2) by auto
  qed
qed

theorem read_receipt_only_for_user_messages_witness:
  "fromWireDict (toWireDict (bob_envelope RECEIPT_READ)) = Inr (bob_envelope RECEIPT_READ)
   \<and> prefix (js ''receipt.'') (msgType (bob_envelope RECEIPT_READ))
   \<and> JStr RECEIPT_READ \<notin> wire_type ` set (newly_sent (alice (js ''auto-accept'') (js ''pinned''))
        (state_after (receive_one test_runtime (alice (js ''auto-accept'') (js ''pinned'')) 10
           (toWireDict (bob_envelope RECEIPT_READ)))))
   \<and> JStr RECEIPT_READ \<in> wire_type ` set (newly_sent (alice (js ''auto-accept'') (js ''pinned''))
        (state_after (receive_one test_runtime (alice (js ''auto-accept'') (js ''pinned'')) 10
           (toWireDict (bob_envelope MESSAGE)))))
   \<and> receive_one test_runtime (alice (js ''auto-accept'') (js ''pinned'')) 10
           (toWireDict (bob_envelope MESSAGE))
       = Inr ((alice (js ''auto-accept'') (js ''pinned''))
                \<lparr> draws := 1, sent := [toWireDict alice_receipt] \<rparr>, Some (bob_message MESSAGE))
   \<and> \<not> prefix (js ''receipt.'') (rm_type (bob_message MESSAGE))
   \<and> \<not> prefix (js ''handshake.'') (rm_type (bob_message MESSAGE))
   \<and> \<not> prefix (js ''session.'') (rm_type (bob_message MESSAGE))"
proof -
  let ?a = "alice (js ''auto-accept'') (js ''pinned'')"
  have p: "prefix (js ''receipt.'') (msgType (bob_envelope RECEIPT_READ))"
    by (simp add: bob_fields RECEIPT_READ_def js_def)
  have quiet: "JStr RECEIPT_READ \<notin> wire_type ` set (newly_sent ?a
        (state_after (receive_one test_runtime ?a 10 (toWireDict (bob_envelope RECEIPT_READ)))))"
    using read_receipt_only_for_user_messages[of "toWireDict (bob_envelope RECEIPT_READ)" ?a test_runtime 10]
      bob_roundtrip[of RECEIPT_READ] p by blast
  have r: "receive_one test_runtime ?a 10 (toWireDict (bob_envelope MESSAGE))
       = Inr (?a\<lparr> draws := 1, sent := [toWireDict alice_receipt] \<rparr>, Some (bob_message MESSAGE))"
    using alice_delivers[OF type_lengths(1) type_distinct(1,2,3), of "js ''auto-accept''"
        "js ''pinned''" 10] auto_accept_approves[of "js ''pinned''" "js ''bob::x.y''"]
    by (simp add: receive_one_def alice_sends_receipt)
  have "wire_type (toWireDict alice_receipt) = JStr RECEIPT_READ"
    by (simp add: wire_type_toWireDict alice_receipt_def test_envelope_fields)
  moreover have "sent ?a = []" by (simp add: alice_def)
  ultimately have sent: "JStr RECEIPT_READ \<in> wire_type ` set (newly_sent ?a
        (state_after (receive_one test_runtime ?a 10 (toWireDict (bob_envelope MESSAGE)))))"
    by (simp add: r state_after_Inr newly_sent_def)
  have "\<not> prefix (js ''receipt.'') (rm_type (bob_message MESSAGE))
      \<and> \<not> prefix (js ''handshake.'') (rm_type (bob_message MESSAGE))
      \<and> \<not> prefix (js ''session.'') (rm_type (bob_message MESSAGE))"
    using read_receipt_only_for_user_messages[of "toWireDict (bob_envelope MESSAGE)" ?a test_runtime 10] sent r by auto
  then show ?thesis using bob_roundtrip[of RECEIPT_READ] p quiet sent r by simp
qed

subsection \<open>Created envelopes verify, decrypt and fit\<close>

text \<open>
  C4. Let the codec decode what it encodes, let signatures of the sender's signing key
  verify under the sender's verify key, let boxes from the sender open at the recipient
  and seals to the recipient open with the recipient's signing key, and let the box nonce
  have its 24 bytes. Then every envelope that \<^verbatim>\<open>createEnvelope\<close> returns verifies under
  the sender's verify key; its payload decrypts to the plaintext (sealed box for
  \<^verbatim>\<open>handshake.request\<close>, box otherwise); its wire JSON has at most 65,536 bytes; and
  both addresses parsed. And whenever both addresses parse and encryption and signing
  succeed, \<^verbatim>\<open>createEnvelope\<close> raises \<^verbatim>\<open>EnvelopeTooLargeError\<close> if the wire JSON of
  the signed envelope has more than 65,536 bytes, and returns the signed envelope
  otherwise.
\<close>

theorem created_envelope_verifies_decrypts_fits:
  assumes "codec_ok R"
    and "signing_pair R signingKey' senderVerifyKey"
    and "box_pair R signingKey' senderVerifyKey recipientSigningKey recipientVerifyKey"
    and "seal_pair R recipientSigningKey recipientVerifyKey"
    and "length (box_random ent) = crypto_box_NONCEBYTES"
  shows "(\<forall>e. createEnvelope R ent from to messageType plaintext signingKey' recipientVerifyKey
               options = Inr e \<longrightarrow>
            verifyEnvelope R e senderVerifyKey = Inr ()
          \<and> (if msgType e = HANDSHAKE_REQUEST
             then decryptPayloadAnonymous R (payload e) recipientSigningKey = Inr plaintext
             else decryptPayload R (payload e) recipientSigningKey senderVerifyKey
                    = Inr plaintext)
          \<and> length (text_encode (json_stringify (JObj (toWireDict e)))) \<le> 65536
          \<and> (\<exists>x y. parseAddress R from = Inr x \<and> parseAddress R to = Inr y))
     \<and> (\<forall>x y p s e0.
            parseAddress R from = Inr x \<longrightarrow> parseAddress R to = Inr y \<longrightarrow>
            (if messageType = HANDSHAKE_REQUEST
             then encryptPayloadAnonymous R ent plaintext recipientVerifyKey
             else encryptPayload R ent plaintext signingKey' recipientVerifyKey) = Inr p \<longrightarrow>
            e0 = \<lparr> uamVersion = UAM_VERSION, messageId = uuid ent, fromAddress = from,
                   toAddress = to, timestamp = iso_now ent, msgType = messageType,
                   nonce = generateNonce R ent, payload = p, signature = [],
                   threadId = map_option JStr (o_threadId options),
                   replyTo = map_option JStr (o_replyTo options),
                   expires = map_option JStr (o_expires options),
                   mediaType = map_option JStr (o_mediaType options),
                   metadata = map_option JObj (o_metadata options),
                   attachments = map_option JArr (o_attachments options) \<rparr> \<longrightarrow>
            signMessage R (canonicalize (buildSignableDict e0)) signingKey' = Inr s \<longrightarrow>
            createEnvelope R ent from to messageType plaintext signingKey' recipientVerifyKey
                options =
              (if 65536 < length (text_encode (json_stringify
                              (JObj (toWireDict (e0\<lparr> signature := s \<rparr>)))))
               then Inl EnvelopeTooLargeError else Inr (e0\<lparr> signature := s \<rparr>)))"
proof (intro conjI allI impI)
  fix e
  assume e: "createEnvelope R ent from to messageType plaintext signingKey' recipientVerifyKey
               options = Inr e"
  show "verifyEnvelope R e senderVerifyKey = Inr ()"
    using assms(1,2) e by (rule created_envelope_verifies)
  show "if msgType e = HANDSHAKE_REQUEST
        then decryptPayloadAnonymous R (payload e) recipientSigningKey = Inr plaintext
        else decryptPayload R (payload e) recipientSigningKey senderVerifyKey = Inr plaintext"
    using assms(1,3,4,5) e by (rule created_envelope_decrypts)
  show "length (text_encode (json_stringify (JObj (toWireDict e)))) \<le> 65536"
    using created_envelope_size[OF e] by (simp add: MAX_ENVELOPE_SIZE_def)
  show "\<exists>x y. parseAddress R from = Inr x \<and> parseAddress R to = Inr y"
    using createEnvelope_InrD[OF e] by blast
next
  fix x y p s e0
  assume "parseAddress R from = Inr x" "parseAddress R to = Inr y"
    "(if messageType = HANDSHAKE_REQUEST
      then encryptPayloadAnonymous R ent plaintext recipientVerifyKey
      else encryptPayload R ent plaintext signingKey' recipientVerifyKey) = Inr p"
    "e0 = \<lparr> uamVersion = UAM_VERSION, messageId = uuid ent, fromAddress = from,
                   toAddress = to, timestamp = iso_now ent, msgType = messageType,
                   nonce = generateNonce R ent, payload = p, signature = [],
                   threadId = map_option JStr (o_threadId options),
                   replyTo = map_option JStr (o_replyTo options),
                   expires = map_option JStr (o_expires options),
                   mediaType = map_option JStr (o_mediaType options),
                   metadata = map_option JObj (o_metadata options),
                   attachments = map_option JArr (o_attachments options) \<rparr>"
    "signMessage R (canonicalize (buildSignableDict e0)) signingKey' = Inr s"
  from createEnvelope_cases[OF this]
  show "createEnvelope R ent from to messageType plaintext signingKey' recipientVerifyKey
                options =
              (if 65536 < length (text_encode (json_stringify
                              (JObj (toWireDict (e0\<lparr> signature := s \<rparr>)))))
               then Inl EnvelopeTooLargeError else Inr (e0\<lparr> signature := s \<rparr>))"
    by (simp add: MAX_ENVELOPE_SIZE_def)
qed

theorem created_envelope_verifies_decrypts_fits_witness:
  "codec_ok test_runtime \<and> signing_pair test_runtime bob_sk bob_vk
   \<and> box_pair test_runtime bob_sk bob_vk alice_sk alice_vk
   \<and> seal_pair test_runtime alice_sk alice_vk
   \<and> length (box_random (test_entropy 7)) = crypto_box_NONCEBYTES
   \<and> createEnvelope test_runtime (test_entropy 7) (js ''bob::x.y'') (js ''alice::x.y'') MESSAGE
        hello bob_sk alice_vk no_envelope_options = Inr (bob_envelope MESSAGE)
   \<and> verifyEnvelope test_runtime (bob_envelope MESSAGE) bob_vk = Inr ()
   \<and> decryptPayload test_runtime (payload (bob_envelope MESSAGE)) alice_sk bob_vk = Inr hello
   \<and> length (text_encode (json_stringify (JObj (toWireDict (bob_envelope MESSAGE))))) \<le> 65536
   \<and> parseAddress test_runtime (js ''bob::x.y'')
        = Inr \<lparr>agent = js ''bob'', domain = js ''x.y''\<rparr>
   \<and> parseAddress test_runtime (js ''alice::x.y'')
        = Inr \<lparr>agent = js ''alice'', domain = js ''x.y''\<rparr>
   \<and> encryptPayload test_runtime (test_entropy 7) long_text bob_sk alice_vk
        = Inr (payload long_envelope)
   \<and> signMessage test_runtime
        (canonicalize (buildSignableDict (long_envelope\<lparr> signature := [] \<rparr>))) bob_sk
        = Inr (signature long_envelope)
   \<and> 65536 < length (text_encode (json_stringify (JObj (toWireDict long_envelope))))
   \<and> createEnvelope test_runtime (test_entropy 7) (js ''bob::x.y'') (js ''alice::x.y'') MESSAGE
        long_text bob_sk alice_vk no_envelope_options = Inl EnvelopeTooLargeError"
proof -
  have 1: "codec_ok test_runtime" by (rule test_codec_ok)
  have 2: "signing_pair test_runtime bob_sk bob_vk"
    unfolding bob_vk_def by (rule test_signing_pair)
  have 3: "box_pair test_runtime bob_sk bob_vk alice_sk alice_vk" by (rule test_box_pair)
  have 4: "seal_pair test_runtime alice_sk alice_vk" by (rule test_seal_pair)
  have 5: "length (box_random (test_entropy 7)) = crypto_box_NONCEBYTES"
    by (simp add: test_entropy_def crypto_box_NONCEBYTES_def)
  have 6: "createEnvelope test_runtime (test_entropy 7) (js ''bob::x.y'') (js ''alice::x.y'')
        MESSAGE hello bob_sk alice_vk no_envelope_options = Inr (bob_envelope MESSAGE)"
    by (rule bob_created[OF type_lengths(1)])
  note fits = created_envelope_verifies_decrypts_fits[OF 1 2 3 4 5,
      of "js ''bob::x.y''" "js ''alice::x.y''" MESSAGE hello no_envelope_options,
      THEN conjunct1, rule_format, OF 6]
  have signed: "long_envelope\<lparr> signature := [], signature := signature long_envelope \<rparr>
      = long_envelope"
    by simp
  note large = created_envelope_verifies_decrypts_fits[OF 1 2 3 4 5,
      of "js ''bob::x.y''" "js ''alice::x.y''" MESSAGE long_text no_envelope_options,
      THEN conjunct2, rule_format,
      OF parse_test_addresses(1) parse_test_addresses(2) _ long_envelope_unsigned
        long_envelope_signed, unfolded signed]
  have 7: "createEnvelope test_runtime (test_entropy 7) (js ''bob::x.y'') (js ''alice::x.y'')
        MESSAGE long_text bob_sk alice_vk no_envelope_options = Inl EnvelopeTooLargeError"
    using large long_envelope_payload long_envelope_size type_distinct(1) by simp
  show ?thesis
    using fits 1 2 3 4 5 6 7 type_distinct(1) parse_test_addresses long_envelope_payload
      long_envelope_signed long_envelope_size
    by (simp add: bob_fields)
qed

end
